(* ===== verification/Prelude.thy ===== *)
theory Prelude
  imports Main "HOL-Library.Word" "HOL-Library.Finite_Map" "HOL-Library.Multiset"
    "HOL-Library.List_Lexorder" "HOL-Library.Char_ord"
begin

text \<open>
  Shared vocabulary of the development: the machine integer types of the Rust sources, the
  pieces of the Rust standard library the sources use (string slicing and trimming, hash map
  iteration, \<^verbatim>\<open>Iterator::max_by\<close>), and the generic lemmas on lists and finite maps that the
  component theories rely on.

  Rust strings are UTF-8 byte sequences; a \<^typ>\<open>string\<close> here is the list of those bytes.
  \<^verbatim>\<open>HashMap\<close> and \<^verbatim>\<open>DashMap\<close> are finite maps.
\<close>

section \<open>Types and theorem collections\<close>

type_synonym u64 = "64 word"
type_synonym u128 = "128 word"

named_theorems iter_simps \<open>facts about the iteration of a hash map\<close>
named_theorems store_simps \<open>lookups after the updates of the two-level store\<close>
named_theorems handler_defs \<open>definitions of the request handlers\<close>

abbreviation u64_max :: u64 where
  "u64_max \<equiv> - 1"

lemma u64_less_succ: "(x :: u64) \<noteq> u64_max \<Longrightarrow> x < x + 1"
proof -
  assume "x \<noteq> u64_max"
  then have "1 + x \<noteq> 0"
    using max_word_wrap [of x] by (auto simp: add.commute)
  then have "unat (1 + x) = Suc (unat x)"
    by (rule unatSuc)
  then show ?thesis
    by (simp add: word_less_nat_alt add.commute)
qed

section \<open>Strings\<close>

definition starts_with :: "string \<Rightarrow> string \<Rightarrow> bool" where
  "starts_with p s \<longleftrightarrow> take (length p) s = p"

definition ends_with :: "string \<Rightarrow> string \<Rightarrow> bool" where
  "ends_with p s \<longleftrightarrow> starts_with (rev p) (rev s)"

lemma starts_with_append [simp]: "starts_with p (p @ s)"
  by (simp add: starts_with_def)

lemma starts_with_iff: "starts_with p s \<longleftrightarrow> (\<exists>r. s = p @ r)"
proof
  assume "starts_with p s"
  then have "s = p @ drop (length p) s"
    by (metis append_take_drop_id starts_with_def)
  then show "\<exists>r. s = p @ r" ..
qed auto

text \<open>\<^verbatim>\<open>str::trim_start_matches\<close> with a string pattern: the prefix goes as often as it occurs.\<close>

function trim_start_matches :: "string \<Rightarrow> string \<Rightarrow> string" where
  "trim_start_matches p s =
     (if p \<noteq> [] \<and> starts_with p s then trim_start_matches p (drop (length p) s) else s)"
  by pat_completeness auto
termination
proof (relation "measure (\<lambda>(p, s). length s)", goal_cases)
  case 1
  show ?case by simp
next
  case (2 p s)
  then have "p \<noteq> []" and "starts_with p s"
    by auto
  then have "length p > 0" and "s \<noteq> []"
    by (auto simp: starts_with_def)
  then show ?case
    by simp
qed

declare trim_start_matches.simps [simp del]

text \<open>\<^verbatim>\<open>str::trim_end_matches\<close> with a character pattern.\<close>

definition trim_end_matches_char :: "char \<Rightarrow> string \<Rightarrow> string" where
  "trim_end_matches_char c s = rev (dropWhile (\<lambda>x. x = c) (rev s))"

definition trim_start_matches_char :: "char \<Rightarrow> string \<Rightarrow> string" where
  "trim_start_matches_char c s = dropWhile (\<lambda>x. x = c) s"

lemma trim_start_matches_other: "\<not> starts_with p s \<Longrightarrow> trim_start_matches p s = s"
  by (subst trim_start_matches.simps) simp

lemma trim_start_matches_prefix:
  "p \<noteq> [] \<Longrightarrow> trim_start_matches p (p @ s) = trim_start_matches p s"
  by (subst trim_start_matches.simps) simp

text \<open>
  \<^verbatim>\<open>str::trim\<close> removes Unicode white space at both ends. The white-space characters take one,
  two or three bytes of UTF-8.
\<close>

definition ws1 :: "char \<Rightarrow> bool" where
  "ws1 a \<longleftrightarrow> of_char a \<in> {9, 10, 11, 12, 13, 32 :: nat}"

definition ws2 :: "char \<Rightarrow> char \<Rightarrow> bool" where
  "ws2 a b \<longleftrightarrow> of_char a = (0xC2 :: nat) \<and> of_char b \<in> {0x85, 0xA0 :: nat}"

definition ws3 :: "char \<Rightarrow> char \<Rightarrow> char \<Rightarrow> bool" where
  "ws3 a b c \<longleftrightarrow>
     (let x = of_char a :: nat; y = of_char b :: nat; z = of_char c :: nat in
       x = 0xE1 \<and> y = 0x9A \<and> z = 0x80 \<or>
       x = 0xE2 \<and> y = 0x80 \<and> (0x80 \<le> z \<and> z \<le> 0x8A \<or> z \<in> {0xA8, 0xA9, 0xAF}) \<or>
       x = 0xE2 \<and> y = 0x81 \<and> z = 0x9F \<or>
       x = 0xE3 \<and> y = 0x80 \<and> z = 0x80)"

fun trim_by :: "(char \<Rightarrow> bool) \<Rightarrow> (char \<Rightarrow> char \<Rightarrow> bool) \<Rightarrow> (char \<Rightarrow> char \<Rightarrow> char \<Rightarrow> bool) \<Rightarrow>
    string \<Rightarrow> string" where
  "trim_by p q r [] = []"
| "trim_by p q r [a] = (if p a then [] else [a])"
| "trim_by p q r [a, b] =
     (if p a then trim_by p q r [b] else if q a b then [] else [a, b])"
| "trim_by p q r (a # b # c # s) =
     (if p a then trim_by p q r (b # c # s)
      else if q a b then trim_by p q r (c # s)
      else if r a b c then trim_by p q r s
      else a # b # c # s)"

definition trim_start :: "string \<Rightarrow> string" where
  "trim_start = trim_by ws1 ws2 ws3"

definition trim_end :: "string \<Rightarrow> string" where
  "trim_end s = rev (trim_by ws1 (\<lambda>b a. ws2 a b) (\<lambda>c b a. ws3 a b c) (rev s))"

definition trim :: "string \<Rightarrow> string" where
  "trim s = trim_end (trim_start s)"

text \<open>Decimal rendering, as \<^verbatim>\<open>format!\<close> prints an unsigned integer.\<close>

definition digit_char :: "nat \<Rightarrow> char" where
  "digit_char d = char_of (48 + d)"

fun show_nat :: "nat \<Rightarrow> string" where
  "show_nat n = (if n < 10 then [digit_char n] else show_nat (n div 10) @ [digit_char (n mod 10)])"

declare show_nat.simps [simp del]

section \<open>Orderings and maxima\<close>

text \<open>\<^verbatim>\<open>std::cmp::Ordering\<close>, with its own order, and \<^verbatim>\<open>Ord::cmp\<close>.\<close>

datatype ordering = Less | Equal | Greater

instantiation ordering :: linorder
begin

fun ordering_rank :: "ordering \<Rightarrow> int" where
  "ordering_rank Less = -1"
| "ordering_rank Equal = 0"
| "ordering_rank Greater = 1"

definition less_eq_ordering :: "ordering \<Rightarrow> ordering \<Rightarrow> bool" where
  "less_eq_ordering a b \<longleftrightarrow> ordering_rank a \<le> ordering_rank b"

definition less_ordering :: "ordering \<Rightarrow> ordering \<Rightarrow> bool" where
  "less_ordering a b \<longleftrightarrow> ordering_rank a < ordering_rank b"

instance
proof
  fix a b :: ordering
  show "a \<le> b \<Longrightarrow> b \<le> a \<Longrightarrow> a = b"
    by (cases a; cases b) (auto simp: less_eq_ordering_def)
qed (auto simp: less_eq_ordering_def less_ordering_def)

end

definition cmp :: "'a::linorder \<Rightarrow> 'a \<Rightarrow> ordering" where
  "cmp a b = (if a < b then Less else if a = b then Equal else Greater)"

text \<open>
  \<^verbatim>\<open>Iterator::max_by\<close>: a left fold that keeps the accumulator only when it compares
  \<^verbatim>\<open>Greater\<close>, so of equal maxima the last one is returned.
\<close>

definition max_by_step :: "('a \<Rightarrow> 'a \<Rightarrow> ordering) \<Rightarrow> 'a \<Rightarrow> 'a \<Rightarrow> 'a" where
  "max_by_step f x y = (if f x y = Greater then x else y)"

fun max_by :: "('a \<Rightarrow> 'a \<Rightarrow> ordering) \<Rightarrow> 'a list \<Rightarrow> 'a option" where
  "max_by f [] = None"
| "max_by f (x # xs) = Some (foldl (max_by_step f) x xs)"

lemma foldl_max_by_step_mem: "foldl (max_by_step f) x xs \<in> set (x # xs)"
  by (induction xs arbitrary: x) (auto simp: max_by_step_def)

lemma max_by_mem: "max_by f xs = Some m \<Longrightarrow> m \<in> set xs"
  by (cases xs) (use foldl_max_by_step_mem in fastforce)+

lemma max_by_Some: "xs \<noteq> [] \<Longrightarrow> \<exists>m. max_by f xs = Some m"
  by (cases xs) auto

section \<open>Iteration over hash maps\<close>

text \<open>
  The iteration order of a \<^verbatim>\<open>HashMap\<close> (and of a \<^verbatim>\<open>DashMap\<close>) is unspecified, and
  \<^verbatim>\<open>SliceRandom::shuffle\<close> permutes at random. Both are an arbitrary permutation, a value of the
  type \<open>hash_order\<close>: theorems about all of its values hold for every order the
  library may choose.
\<close>

typedef hash_order = "{f :: string list \<Rightarrow> string list. \<forall>xs. mset (f xs) = mset xs}"
  morphisms apply_order Abs_hash_order
  by (rule exI [of _ id]) simp

setup_lifting type_definition_hash_order

lift_definition sorted_order :: hash_order is "\<lambda>xs. xs"
  by simp

lift_definition reversed_order :: hash_order is rev
  by simp

lemma mset_apply_order [simp]: "mset (apply_order f xs) = mset xs"
  by transfer simp

lemma set_apply_order [simp]: "set (apply_order f xs) = set xs"
  by (metis mset_apply_order set_mset_mset)

lemma distinct_apply_order [simp]: "distinct (apply_order f xs) \<longleftrightarrow> distinct xs"
  by (metis mset_apply_order distinct_count_atmost_1 set_apply_order)

lemma length_apply_order [simp]: "length (apply_order f xs) = length xs"
  by (metis mset_apply_order size_mset)

lemma apply_sorted_order [simp]: "apply_order sorted_order xs = xs"
  by transfer simp

lemma apply_reversed_order [simp]: "apply_order reversed_order xs = rev xs"
  by transfer simp

definition iter_map :: "hash_order \<Rightarrow> (string, 'a) fmap \<Rightarrow> (string \<times> 'a) list" where
  "iter_map f m =
     List.map_filter (\<lambda>k. map_option (Pair k) (fmlookup m k))
       (apply_order f (sorted_list_of_fset (fmdom m)))"

lemma map_filter_pairs:
  "map fst (List.map_filter (\<lambda>k. map_option (Pair k) (g k)) ks) = filter (\<lambda>k. g k \<noteq> None) ks"
  by (induction ks) (auto simp: List.map_filter_def)

lemma keys_iter_map [iter_simps]:
  "map fst (iter_map f m) = apply_order f (sorted_list_of_fset (fmdom m))"
  by (auto simp: iter_map_def map_filter_pairs filter_id_conv fmlookup_dom_iff)

lemma mem_iter_map [iter_simps]: "(k, v) \<in> set (iter_map f m) \<longleftrightarrow> fmlookup m k = Some v"
proof -
  have "set (iter_map f m) =
      {(k, v). k \<in> set (sorted_list_of_fset (fmdom m)) \<and> fmlookup m k = Some v}"
    by (force simp: iter_map_def List.map_filter_def image_iff)
  then show ?thesis
    by (auto simp: fmdomI)
qed

lemma distinct_iter_map [iter_simps]: "distinct (map fst (iter_map f m))"
  by (simp add: keys_iter_map sorted_list_of_fset.rep_eq)

lemma length_iter_map [iter_simps]: "length (iter_map f m) = fcard (fmdom m)"
proof -
  have "length (iter_map f m) = length (map fst (iter_map f m))"
    by simp
  also have "\<dots> = fcard (fmdom m)"
    by (simp add: keys_iter_map sorted_list_of_fset.rep_eq fcard.rep_eq)
  finally show ?thesis .
qed

lemma fmap_of_iter_map [iter_simps]: "fmap_of_list (iter_map f m) = m"
proof (rule fmap_ext)
  fix k
  have "map_of (iter_map f m) k = fmlookup m k"
  proof (cases "fmlookup m k")
    case None
    then have "k \<notin> fst ` set (iter_map f m)"
      by (force simp: mem_iter_map)
    then show ?thesis
      using None by (simp add: map_of_eq_None_iff)
  next
    case (Some v)
    then show ?thesis
      by (simp add: distinct_iter_map mem_iter_map)
  qed
  then show "fmlookup (fmap_of_list (iter_map f m)) k = fmlookup m k"
    by (simp add: fmlookup_of_list)
qed

text \<open>The loop that inserts every entry of one map into another.\<close>

fun insert_all :: "('k \<times> 'a) list \<Rightarrow> ('k, 'a) fmap \<Rightarrow> ('k, 'a) fmap" where
  "insert_all [] m = m"
| "insert_all ((k, v) # xs) m = insert_all xs (fmupd k v m)"

lemma lookup_insert_all:
  "distinct (map fst xs) \<Longrightarrow>
   fmlookup (insert_all xs m) k = (case map_of xs k of None \<Rightarrow> fmlookup m k | Some v \<Rightarrow> Some v)"
proof (induction xs arbitrary: m)
  case (Cons x xs)
  obtain k' v' where x: "x = (k', v')"
    by fastforce
  from Cons.prems x have "map_of xs k' = None"
    by (simp add: map_of_eq_None_iff)
  with Cons x show ?case
    by (auto split: option.splits)
qed simp

lemma insert_all_iter_map [simp]: "insert_all (iter_map f u) m = m ++\<^sub>f u"
proof (rule fmap_ext)
  fix k
  have "map_of (iter_map f u) k = fmlookup u k"
    by (metis fmap_of_iter_map fmlookup_of_list)
  then show "fmlookup (insert_all (iter_map f u) m) k = fmlookup (m ++\<^sub>f u) k"
    by (auto simp: lookup_insert_all distinct_iter_map fmlookup_dom_iff split: option.splits)
qed

section \<open>Triples\<close>

text \<open>The parts of a handler's result.\<close>

lemma triple_collapse: "x = (fst x, fst (snd x), snd (snd x))"
  by simp

section \<open>Lookup with a default\<close>

text \<open>\<^verbatim>\<open>map.get(k).copied().unwrap_or(d)\<close> and \<^verbatim>\<open>map.entry(k).or_default()\<close>.\<close>

definition lookup_or :: "'a \<Rightarrow> ('k, 'a) fmap \<Rightarrow> 'k \<Rightarrow> 'a" where
  "lookup_or d m k = (case fmlookup m k of None \<Rightarrow> d | Some v \<Rightarrow> v)"

lemma lookup_or_upd [simp]: "lookup_or d (fmupd k v m) k' = (if k = k' then v else lookup_or d m k')"
  by (simp add: lookup_or_def)

lemma lookup_or_empty [simp]: "lookup_or d fmempty k = d"
  by (simp add: lookup_or_def)

end
