(* ===== verification/Routes.thy ===== *)
theory Routes
  imports Prelude
begin

text \<open>
  The route tables of \<^verbatim>\<open>main.rs\<close>: path patterns, the two tables (for the server with and without
  TLS), and which handler a request reaches. A route is registered with its method as a guard, so
  the first entry whose method and pattern both fit takes the request.
\<close>

section \<open>Patterns\<close>

datatype http_method = GET | POST | PUT | PATCH | DELETE | OtherMethod

text \<open>A segment of a pattern: literal text, or a placeholder for one non-empty segment.\<close>

datatype segment = Lit string | Var string

text \<open>The segments of a path, split at the slashes after the leading one.\<close>

function split_slashes :: "string \<Rightarrow> string list" where
  "split_slashes s =
     (case dropWhile (\<lambda>c. c \<noteq> CHR ''/'') s of
        [] \<Rightarrow> [s]
      | _ # rest \<Rightarrow> takeWhile (\<lambda>c. c \<noteq> CHR ''/'') s # split_slashes rest)"
  by pat_completeness auto
termination
proof (relation "measure length", goal_cases)
  case (2 s c rest)
  have "length (dropWhile (\<lambda>c. c \<noteq> CHR ''/'') s) \<le> length s"
    by (rule length_dropWhile_le)
  with 2 show ?case
    by simp
qed simp

declare split_slashes.simps [simp del]

definition path_segments :: "string \<Rightarrow> string list option" where
  "path_segments path =
     (case path of
        [] \<Rightarrow> None
      | c # rest \<Rightarrow> if c = CHR ''/'' then Some (split_slashes rest) else None)"

fun match_segments :: "segment list \<Rightarrow> string list \<Rightarrow> string list option" where
  "match_segments [] [] = Some []"
| "match_segments (Lit l # ps) (s # ss) = (if s = l then match_segments ps ss else None)"
| "match_segments (Var x # ps) (s # ss) =
     (if s = [] then None else map_option (Cons s) (match_segments ps ss))"
| "match_segments _ _ = None"

section \<open>The tables\<close>

datatype endpoint =
    JoinCluster | GetMembership | UpdateMembership | IndirectPing | Heartbeat
  | PutValueInternal | GetValue | PutValue | PatchValue | DeleteValue
  | GetTableStore | GetGlobalStore | GetAllKeys | GetMultipleKeys | SubscribeToKey | Access
  | AdminDashboard | AdminLogin | AdminGetTables | AdminGetKeys
  | AdminGetRecord | AdminPutRecord | AdminDeleteRecord | GetStats

type_synonym route = "http_method \<times> segment list \<times> endpoint"

definition https_routes :: "route list" where
  "https_routes =
     [(POST, [Lit ''join''], JoinCluster),
      (GET, [Lit ''membership''], GetMembership),
      (POST, [Lit ''update_membership''], UpdateMembership),
      (POST, [Lit ''indirect_ping''], IndirectPing),
      (GET, [Lit ''heartbeat''], Heartbeat),
      (PUT, [Lit ''internal'', Var ''table'', Lit ''key'', Var ''key''], PutValueInternal),
      (GET, [Var ''table'', Lit ''key'', Var ''key''], GetValue),
      (PUT, [Var ''table'', Lit ''key'', Var ''key''], PutValue),
      (PATCH, [Var ''table'', Lit ''key'', Var ''key''], PatchValue),
      (DELETE, [Var ''table'', Lit ''key'', Var ''key''], DeleteValue),
      (GET, [Var ''table'', Lit ''store''], GetTableStore),
      (GET, [Lit ''store''], GetGlobalStore),
      (GET, [Var ''table'', Lit ''keys''], GetAllKeys),
      (POST, [Var ''table'', Lit ''keys''], GetMultipleKeys),
      (GET, [Var ''table'', Lit ''subscribe'', Var ''key''], SubscribeToKey),
      (POST, [Lit ''auth'', Var ''user''], Access),
      (GET, [Lit ''admin''], AdminDashboard),
      (POST, [Lit ''admin'', Lit ''login''], AdminLogin),
      (GET, [Lit ''admin'', Lit ''tables''], AdminGetTables),
      (GET, [Lit ''admin'', Lit ''table'', Var ''table'', Lit ''keys''], AdminGetKeys),
      (GET, [Lit ''admin'', Lit ''table'', Var ''table'', Lit ''key'', Var ''key''], AdminGetRecord),
      (PUT, [Lit ''admin'', Lit ''table'', Var ''table'', Lit ''key'', Var ''key''], AdminPutRecord),
      (DELETE, [Lit ''admin'', Lit ''table'', Var ''table'', Lit ''key'', Var ''key''], AdminDeleteRecord),
      (GET, [Lit ''stats''], GetStats)]"

definition http_routes :: "route list" where
  "http_routes =
     [(POST, [Lit ''join''], JoinCluster),
      (GET, [Lit ''membership''], GetMembership),
      (POST, [Lit ''update_membership''], UpdateMembership),
      (POST, [Lit ''indirect_ping''], IndirectPing),
      (GET, [Lit ''heartbeat''], Heartbeat),
      (PUT, [Lit ''internal'', Var ''table'', Lit ''key'', Var ''key''], PutValueInternal),
      (GET, [Var ''table'', Lit ''key'', Var ''key''], GetValue),
      (PUT, [Var ''table'', Lit ''key'', Var ''key''], PutValue),
      (PATCH, [Var ''table'', Lit ''key'', Var ''key''], PatchValue),
      (DELETE, [Var ''table'', Lit ''key'', Var ''key''], DeleteValue),
      (GET, [Var ''table'', Lit ''store''], GetTableStore),
      (GET, [Lit ''store''], GetGlobalStore),
      (GET, [Var ''table'', Lit ''keys''], GetAllKeys),
      (POST, [Var ''table'', Lit ''keys''], GetMultipleKeys),
      (GET, [Var ''table'', Lit ''subscribe'', Var ''key''], SubscribeToKey),
      (POST, [Lit ''auth'', Var ''user''], Access),
      (GET, [Lit ''admin''], AdminDashboard),
      (POST, [Lit ''admin'', Lit ''login''], AdminLogin),
      (GET, [Lit ''admin'', Lit ''tables''], AdminGetTables),
      (GET, [Lit ''admin'', Lit ''table'', Var ''table'', Lit ''keys''], AdminGetKeys),
      (GET, [Lit ''admin'', Lit ''table'', Var ''table'', Lit ''key'', Var ''key''], AdminGetRecord),
      (PUT, [Lit ''admin'', Lit ''table'', Var ''table'', Lit ''key'', Var ''key''], AdminPutRecord),
      (DELETE, [Lit ''admin'', Lit ''table'', Var ''table'', Lit ''key'', Var ''key''], AdminDeleteRecord),
      (GET, [Lit ''stats''], GetStats)]"

fun first_route :: "http_method \<Rightarrow> string list \<Rightarrow> route list \<Rightarrow> (endpoint \<times> string list) option" where
  "first_route m segs [] = None"
| "first_route m segs ((m', pat, e) # rs) =
     (if m = m' then case match_segments pat segs of
          Some captures \<Rightarrow> Some (e, captures)
        | None \<Rightarrow> first_route m segs rs
      else first_route m segs rs)"

definition route_request :: "bool \<Rightarrow> http_method \<Rightarrow> string \<Rightarrow> (endpoint \<times> string list) option" where
  "route_request use_tls m path =
     Option.bind (path_segments path)
       (\<lambda>segs. first_route m segs (if use_tls then https_routes else http_routes))"

section \<open>Lemmas\<close>

lemma route_tables_agree: "http_routes = https_routes"
  by (simp add: http_routes_def https_routes_def)

lemma split_slashes_plain: "CHR ''/'' \<notin> set s \<Longrightarrow> split_slashes s = [s]"
proof -
  assume "CHR ''/'' \<notin> set s"
  then have eq: "dropWhile (\<lambda>c. c \<noteq> CHR ''/'') s = []"
    by (auto simp: dropWhile_eq_Nil_conv)
  show ?thesis
    by (subst split_slashes.simps, subst eq) simp
qed

lemma split_slashes_cons: "CHR ''/'' \<notin> set s \<Longrightarrow> split_slashes (s @ CHR ''/'' # rest) = s # split_slashes rest"
  by (subst split_slashes.simps) (simp add: dropWhile_append takeWhile_append)

lemma first_route_mem:
  "first_route m segs rs = Some (e, caps) \<Longrightarrow> \<exists>pat. (m, pat, e) \<in> set rs \<and> match_segments pat segs = Some caps"
  by (induction m segs rs rule: first_route.induct) (auto split: if_splits option.splits)

lemma first_route_none:
  "first_route m segs rs = None \<longleftrightarrow> (\<forall>pat e. (m, pat, e) \<in> set rs \<longrightarrow> match_segments pat segs = None)"
  by (induction m segs rs rule: first_route.induct) (auto split: option.splits)

text \<open>Two patterns that fit the same path, as a computable necessary condition.\<close>

fun compatible :: "segment list \<Rightarrow> segment list \<Rightarrow> bool" where
  "compatible [] [] = True"
| "compatible (Lit a # ps) (Lit b # qs) = (a = b \<and> compatible ps qs)"
| "compatible (p # ps) (q # qs) = compatible ps qs"
| "compatible _ _ = False"

lemma match_compatible:
  "match_segments p segs \<noteq> None \<Longrightarrow> match_segments q segs \<noteq> None \<Longrightarrow> compatible p q"
proof (induction p arbitrary: q segs)
  case Nil
  then show ?case
    by (cases q; cases segs) auto
next
  case (Cons a p)
  then obtain b q' s segs' where "q = b # q'" and "segs = s # segs'"
    by (cases q; cases segs) (auto elim: match_segments.elims)
  with Cons show ?case
    by (cases a; cases b) (auto split: if_splits)
qed

definition overlaps :: "http_method \<Rightarrow> (endpoint \<times> endpoint) list" where
  "overlaps m =
     (let rs = filter (\<lambda>(m', _). m' = m) https_routes
      in map (\<lambda>((_, _, e), (_, _, e')). (e, e'))
           (filter (\<lambda>((_, p, e), (_, p', e')). length p = length p' \<and> e \<noteq> e' \<and> compatible p p')
              (List.product rs rs)))"

lemma overlaps_POST: "overlaps POST = [(GetMultipleKeys, Access), (Access, GetMultipleKeys)]"
  by (simp add: overlaps_def https_routes_def)

lemma overlaps_GET: "overlaps GET = []"
  by code_simp

lemma overlaps_other: "overlaps PUT = []" "overlaps PATCH = []" "overlaps DELETE = []" "overlaps OtherMethod = []"
  by (simp_all add: overlaps_def https_routes_def)

lemma match_length: "match_segments p segs \<noteq> None \<Longrightarrow> length p = length segs"
  by (induction p segs rule: match_segments.induct) (auto split: if_splits)

text \<open>
  Two routes of one method that fit the same path are the same route, except for
  \<^verbatim>\<open>POST /auth/keys\<close>.
\<close>

lemma overlap_unique:
  assumes "(m, p, e) \<in> set https_routes" and "(m, p', e') \<in> set https_routes" and "e \<noteq> e'"
    and "match_segments p segs \<noteq> None" and "match_segments p' segs \<noteq> None"
  shows "m = POST \<and> segs = [''auth'', ''keys'']"
proof -
  have "(e, e') \<in> set (overlaps m)"
    using assms match_compatible [OF assms(4,5)] match_length [OF assms(4)] match_length [OF assms(5)]
    unfolding overlaps_def Let_def set_map
    by (intro image_eqI [of _ _ "((m, p, e), (m, p', e'))"]) (simp_all del: split_paired_Ex)
  then have "m = POST" and ends: "(e, e') \<in> {(GetMultipleKeys, Access), (Access, GetMultipleKeys)}"
    by (cases m; simp add: overlaps_POST overlaps_GET overlaps_other)+
  have multi: "q = [Var ''table'', Lit ''keys'']" if "(m, q, GetMultipleKeys) \<in> set https_routes" for q
    using that by (simp add: https_routes_def)
  have access: "q = [Lit ''auth'', Var ''user'']" if "(m, q, Access) \<in> set https_routes" for q
    using that by (simp add: https_routes_def)
  have "segs = [''auth'', ''keys'']" if "match_segments [Var ''table'', Lit ''keys''] segs \<noteq> None"
    "match_segments [Lit ''auth'', Var ''user''] segs \<noteq> None"
    using that by (cases segs; cases "tl segs"; cases "tl (tl segs)") (auto split: if_splits)
  with \<open>m = POST\<close> ends assms multi access show ?thesis
    by blast
qed

section \<open>Which handler a request reaches\<close>

text \<open>
  Routes are unambiguous. A request whose method and path fit an entry of the table reaches
  that entry, with the captured segments, whatever entries stand before it, in both server modes;
  the one exception is POST /auth/keys, the registration and login path of a user called
  \<^verbatim>\<open>keys\<close>, which goes to the handler for several keys of a table.
\<close>

theorem route_request_unambiguous:
  assumes "(m, pat, e) \<in> set https_routes" and "path_segments path = Some segs"
    and "match_segments pat segs = Some caps"
  shows "route_request use_tls m path =
    (if (m, segs) = (POST, [''auth'', ''keys'']) then Some (GetMultipleKeys, [''auth'']) else Some (e, caps))"
proof -
  have "first_route m segs https_routes \<noteq> None"
    using assms(1,3) by (auto simp: first_route_none)
  then obtain e' caps' where first: "first_route m segs https_routes = Some (e', caps')"
    by auto
  obtain pat' where pat': "(m, pat', e') \<in> set https_routes" "match_segments pat' segs = Some caps'"
    using first_route_mem [OF first] by blast
  have route: "route_request use_tls m path = Some (e', caps')"
    by (simp add: route_request_def assms(2) route_tables_agree first)
  show ?thesis
  proof (cases "(m, segs) = (POST, [''auth'', ''keys''])")
    case True
    then have "first_route m segs https_routes = Some (GetMultipleKeys, [''auth''])"
      by (simp add: https_routes_def)
    with True first route show ?thesis
      by simp
  next
    case False
    then have "e = e'"
      using overlap_unique [OF assms(1) pat'(1), of segs] assms(3) pat'(2) by auto
    moreover have "pat = pat'"
      using assms(1) pat'(1) \<open>e = e'\<close> by (auto simp: https_routes_def)
    ultimately show ?thesis
      using False route assms(3) pat'(2) by auto
  qed
qed

end
