(* ===== verification/Versioned.thy ===== *)
theory Versioned
  imports Prelude
begin

text \<open>
  The versioned record of \<^verbatim>\<open>storage/engine.rs\<close> (\<^verbatim>\<open>VersionedValue\<close>) with its vector clock, the
  comparison \<^verbatim>\<open>dominates\<close>, and the conflict rule by which a replica decides whether an
  incoming version replaces the one it holds (\<^verbatim>\<open>put_value_internal\<close>, \<^verbatim>\<open>merge_table_state\<close>).
\<close>

section \<open>The record and its constructors\<close>

text \<open>
  The JSON values of the payload are never inspected by the engine: their type is the
  parameter \<^typ>\<open>'v\<close>. \<^verbatim>\<open>current_timestamp()\<close> is the argument \<open>now\<close>. The counters are
  64 bits wide and \<^verbatim>\<open>+= 1\<close> wraps, as in the release build the project ships.
\<close>

record 'v versioned_value =
  vvalue :: "(string, 'v) fmap"
  vector_clock :: "(string, u64) fmap"
  timestamp :: u128
  owner :: string

definition vv_new :: "u128 \<Rightarrow> (string, 'v) fmap \<Rightarrow> string \<Rightarrow> string \<Rightarrow> 'v versioned_value" where
  "vv_new now val own node_id =
     \<lparr>vvalue = val, vector_clock = fmupd node_id 1 fmempty, timestamp = now, owner = own\<rparr>"

definition bump_clock :: "string \<Rightarrow> (string, u64) fmap \<Rightarrow> (string, u64) fmap" where
  "bump_clock node_id c = fmupd node_id (lookup_or 0 c node_id + 1) c"

definition vv_update ::
    "u128 \<Rightarrow> (string, 'v) fmap \<Rightarrow> string \<Rightarrow> 'v versioned_value \<Rightarrow> 'v versioned_value" where
  "vv_update now val node_id self =
     self\<lparr>vvalue := val, vector_clock := bump_clock node_id (vector_clock self), timestamp := now\<rparr>"

definition vv_patch ::
    "u128 \<Rightarrow> hash_order \<Rightarrow> (string, 'v) fmap \<Rightarrow> string \<Rightarrow> 'v versioned_value \<Rightarrow>
     'v versioned_value" where
  "vv_patch now f updates node_id self =
     self\<lparr>vvalue := insert_all (iter_map f updates) (vvalue self),
          vector_clock := bump_clock node_id (vector_clock self), timestamp := now\<rparr>"

section \<open>The comparison of vector clocks\<close>

text \<open>
  The two loops of \<^verbatim>\<open>dominates\<close>, over the entries of the two clocks in the order the hash map
  iterator gives them; \<^const>\<open>None\<close> is the early \<^verbatim>\<open>return false\<close>.
\<close>

fun dominates_scan ::
    "(string, u64) fmap \<Rightarrow> (string \<times> u64) list \<Rightarrow> bool \<Rightarrow> bool option" where
  "dominates_scan self [] strictly_newer = Some strictly_newer"
| "dominates_scan self ((node, other_v) # rest) strictly_newer =
     (let self_v = lookup_or 0 self node in
      if self_v < other_v then None
      else if self_v > other_v then dominates_scan self rest True
      else dominates_scan self rest strictly_newer)"

fun dominates_extra :: "(string, u64) fmap \<Rightarrow> (string \<times> u64) list \<Rightarrow> bool \<Rightarrow> bool" where
  "dominates_extra other [] strictly_newer = strictly_newer"
| "dominates_extra other ((node, self_v) # rest) strictly_newer =
     (if fmlookup other node = None \<and> self_v > 0 then dominates_extra other rest True
      else dominates_extra other rest strictly_newer)"

definition dominates_in :: "hash_order \<Rightarrow> 'v versioned_value \<Rightarrow> 'v versioned_value \<Rightarrow> bool" where
  "dominates_in f self other =
     (case dominates_scan (vector_clock self) (iter_map f (vector_clock other)) False of
        None \<Rightarrow> False
      | Some strictly_newer \<Rightarrow>
          dominates_extra (vector_clock other) (iter_map f (vector_clock self)) strictly_newer)"

text \<open>
  The result does not depend on the iteration order (\<open>dominates_in_order\<close> below), so the
  rest of the model fixes one.
\<close>

definition dominates :: "'v versioned_value \<Rightarrow> 'v versioned_value \<Rightarrow> bool" where
  "dominates = dominates_in sorted_order"

text \<open>The abstract view of a clock: absent nodes count zero.\<close>

definition clk :: "'v versioned_value \<Rightarrow> string \<Rightarrow> u64" where
  "clk v n = lookup_or 0 (vector_clock v) n"

lemma dominates_scan_iff:
  "dominates_scan self xs b =
     (if \<exists>(n, w) \<in> set xs. lookup_or 0 self n < w then None
      else Some (b \<or> (\<exists>(n, w) \<in> set xs. lookup_or 0 self n > w)))"
  by (induction self xs b rule: dominates_scan.induct) (auto simp: Let_def split: if_splits)

lemma dominates_extra_iff:
  "dominates_extra other xs b \<longleftrightarrow> b \<or> (\<exists>(n, w) \<in> set xs. fmlookup other n = None \<and> w > 0)"
  by (induction other xs b rule: dominates_extra.induct) auto

lemma clk_Some: "fmlookup (vector_clock v) n = Some w \<Longrightarrow> clk v n = w"
  by (simp add: clk_def lookup_or_def)

lemma clk_None: "fmlookup (vector_clock v) n = None \<Longrightarrow> clk v n = 0"
  by (simp add: clk_def lookup_or_def)

lemma clk_greater: "x < clk v n \<Longrightarrow> fmlookup (vector_clock v) n = Some (clk v n)"
  by (cases "fmlookup (vector_clock v) n") (auto simp: clk_Some dest: clk_None)

lemma scan_smaller:
  "(\<exists>(n, w) \<in> set (iter_map f (vector_clock b)). lookup_or 0 (vector_clock a) n < w) \<longleftrightarrow>
   (\<exists>n. clk a n < clk b n)"
  unfolding clk_def [of a, symmetric]
proof
  assume "\<exists>(n, w) \<in> set (iter_map f (vector_clock b)). clk a n < w"
  then obtain n w where "fmlookup (vector_clock b) n = Some w" and "clk a n < w"
    by (auto simp: mem_iter_map)
  then show "\<exists>n. clk a n < clk b n"
    using clk_Some by blast
next
  assume "\<exists>n. clk a n < clk b n"
  then obtain n where "clk a n < clk b n" ..
  moreover from this have "(n, clk b n) \<in> set (iter_map f (vector_clock b))"
    by (simp add: mem_iter_map clk_greater)
  ultimately show "\<exists>(n, w) \<in> set (iter_map f (vector_clock b)). clk a n < w"
    by blast
qed

lemma scan_greater:
  "(\<exists>(n, w) \<in> set (iter_map f (vector_clock b)). lookup_or 0 (vector_clock a) n > w) \<or>
     (\<exists>(n, w) \<in> set (iter_map f (vector_clock a)). fmlookup (vector_clock b) n = None \<and> w > 0) \<longleftrightarrow>
   (\<exists>n. clk b n < clk a n)" (is "?both \<or> ?only \<longleftrightarrow> ?less")
proof
  assume "?both \<or> ?only"
  then show ?less
    unfolding clk_def [of a, symmetric]
    by (auto simp: mem_iter_map dest!: clk_Some clk_None) metis+
next
  assume ?less
  then obtain n where n: "clk b n < clk a n" ..
  then have a: "fmlookup (vector_clock a) n = Some (clk a n)"
    by (rule clk_greater)
  show "?both \<or> ?only"
  proof (cases "fmlookup (vector_clock b) n")
    case None
    with n have "(n, clk a n) \<in> set (iter_map f (vector_clock a))" and "0 < clk a n"
      using a by (auto simp: mem_iter_map clk_None)
    with None show ?thesis
      by blast
  next
    case (Some w)
    then have "(n, w) \<in> set (iter_map f (vector_clock b))" and "w < lookup_or 0 (vector_clock a) n"
      using n by (auto simp: mem_iter_map clk_Some clk_def [of a, symmetric])
    then show ?thesis
      by blast
  qed
qed

lemma dominates_in_iff:
  "dominates_in f a b \<longleftrightarrow> (\<forall>n. clk b n \<le> clk a n) \<and> (\<exists>n. clk b n < clk a n)"
proof (cases "\<exists>n. clk a n < clk b n")
  case True
  then show ?thesis
    by (auto simp: dominates_in_def dominates_scan_iff scan_smaller leD)
next
  case False
  then have le: "\<forall>n. clk b n \<le> clk a n"
    by (simp add: not_less)
  from False have "dominates_in f a b \<longleftrightarrow> (\<exists>n. clk b n < clk a n)"
    by (simp only: dominates_in_def dominates_scan_iff scan_smaller if_False option.case
        dominates_extra_iff simp_thms disj_assoc scan_greater)
  with le show ?thesis
    by simp
qed

lemma dominates_iff: "dominates a b \<longleftrightarrow> (\<forall>n. clk b n \<le> clk a n) \<and> (\<exists>n. clk b n < clk a n)"
  by (simp add: dominates_def dominates_in_iff)

lemma dominates_irrefl [simp]: "\<not> dominates a a"
  by (simp add: dominates_iff)

lemma dominates_trans: "dominates a b \<Longrightarrow> dominates b c \<Longrightarrow> dominates a c"
  unfolding dominates_iff by (meson order_le_less_trans order_trans)

lemma dominates_asym: "dominates a b \<Longrightarrow> \<not> dominates b a"
  using dominates_trans dominates_irrefl by blast

section \<open>The conflict rule\<close>

text \<open>
  The condition under which a stored version is replaced, written twice in the sources, and
  the entry operation around it (\<^verbatim>\<open>and_modify ... or_insert\<close>).
\<close>

definition supersedes :: "'v versioned_value \<Rightarrow> 'v versioned_value \<Rightarrow> bool" where
  "supersedes incoming existing \<longleftrightarrow>
     dominates incoming existing \<or>
     (\<not> dominates existing incoming \<and> timestamp incoming > timestamp existing)"

definition merge_version ::
    "'v versioned_value \<Rightarrow> 'v versioned_value \<Rightarrow> 'v versioned_value" where
  "merge_version incoming existing = (if supersedes incoming existing then incoming else existing)"

definition merge_cell ::
    "'v versioned_value option \<Rightarrow> 'v versioned_value \<Rightarrow> 'v versioned_value option" where
  "merge_cell cell incoming =
     (case cell of None \<Rightarrow> Some incoming | Some existing \<Rightarrow> Some (merge_version incoming existing))"

text \<open>The comparison passed to \<^verbatim>\<open>max_by\<close> by the read path.\<close>

definition cmp_versions :: "'v versioned_value \<Rightarrow> 'v versioned_value \<Rightarrow> ordering" where
  "cmp_versions a b =
     (if dominates a b then Greater
      else if dominates b a then Less
      else cmp (timestamp a) (timestamp b))"

lemma supersedes_irrefl [simp]: "\<not> supersedes a a"
  by (simp add: supersedes_def)

lemma supersedes_asym: "supersedes a b \<Longrightarrow> \<not> supersedes b a"
  by (auto simp: supersedes_def dest: dominates_asym)

lemma merge_version_self [simp]: "merge_version a a = a"
  by (simp add: merge_version_def)

lemma cmp_versions_Greater [simp]: "cmp_versions a b = Greater \<longleftrightarrow> supersedes a b"
  by (auto simp: cmp_versions_def supersedes_def cmp_def dest: dominates_asym)

section \<open>Writes produce dominating versions\<close>

lemma clk_new: "clk (vv_new now val own m) n = (if n = m then 1 else 0)"
  by (simp add: clk_def vv_new_def)

lemma clk_update: "clk (vv_update now val m self) n = (if n = m then clk self n + 1 else clk self n)"
  by (simp add: clk_def vv_update_def bump_clock_def)

lemma clk_patch: "clk (vv_patch now f upd m self) n = (if n = m then clk self n + 1 else clk self n)"
  by (simp add: clk_def vv_patch_def bump_clock_def)

lemmas clk_simps = clk_new clk_update clk_patch

lemma owner_writes [simp]:
  "owner (vv_new now val own m) = own"
  "owner (vv_update now val m self) = owner self"
  "owner (vv_patch now f upd m self) = owner self"
  by (simp_all add: vv_new_def vv_update_def vv_patch_def)

lemma timestamp_writes [simp]:
  "timestamp (vv_new now val own m) = now"
  "timestamp (vv_update now val m self) = now"
  "timestamp (vv_patch now f upd m self) = now"
  by (simp_all add: vv_new_def vv_update_def vv_patch_def)

lemma vvalue_writes [simp]:
  "vvalue (vv_new now val own m) = val"
  "vvalue (vv_update now val m self) = val"
  "vvalue (vv_patch now f upd m self) = vvalue self ++\<^sub>f upd"
  by (simp_all add: vv_new_def vv_update_def vv_patch_def)

text \<open>A version whose only change is one counter advanced without wrapping.\<close>

lemma dominates_bump:
  assumes "\<And>n. clk new n = (if n = m then clk old n + 1 else clk old n)"
    and "clk old m \<noteq> u64_max"
  shows "dominates new old"
proof -
  from assms(2) have "clk old m < clk old m + 1"
    by (rule u64_less_succ)
  then show ?thesis
    unfolding dominates_iff using assms(1) by (auto intro: exI [of _ m])
qed

lemma dominates_wrapped:
  assumes "\<And>n. clk new n = (if n = m then clk old n + 1 else clk old n)"
    and "clk old m = u64_max"
  shows "dominates old new"
proof -
  from assms have "clk new m = 0" and "clk old m \<noteq> 0"
    by simp_all
  then have "clk new m < clk old m"
    by (simp add: word_gt_0)
  with assms(1) show ?thesis
    unfolding dominates_iff by (metis order.refl order.strict_implies_order)
qed

lemma merge_dominated:
  "dominates a b \<Longrightarrow> merge_version a b = a"
  "dominates a b \<Longrightarrow> merge_version b a = a"
  by (auto simp: merge_version_def supersedes_def dest: dominates_asym)

section \<open>Last-writer-wins registers\<close>

text \<open>
  The interface the replication protocol relies on: a relation that decides which of two
  versions wins, a receive operation on one cell, and a condition on sets of versions under
  which the relation is a strict total order. Its client is any replica that receives
  versions in some order, with repetitions.
\<close>

locale lww_register =
  fixes newer :: "'a \<Rightarrow> 'a \<Rightarrow> bool"
    and receive :: "'a option \<Rightarrow> 'a \<Rightarrow> 'a option"
    and admissible :: "'a set \<Rightarrow> bool"
  assumes receive_None: "receive None x = Some x"
    and receive_Some: "receive (Some e) x = Some (if newer x e then x else e)"
    and newer_asym: "newer x y \<Longrightarrow> \<not> newer y x"
    and newer_trans: "admissible S \<Longrightarrow> x \<in> S \<Longrightarrow> y \<in> S \<Longrightarrow> z \<in> S \<Longrightarrow>
          newer x y \<Longrightarrow> newer y z \<Longrightarrow> newer x z"
    and newer_total: "admissible S \<Longrightarrow> x \<in> S \<Longrightarrow> y \<in> S \<Longrightarrow> x \<noteq> y \<Longrightarrow> newer x y \<or> newer y x"
begin

definition winner :: "'a set \<Rightarrow> 'a \<Rightarrow> bool" where
  "winner S m \<longleftrightarrow> m \<in> S \<and> (\<forall>y \<in> S. y \<noteq> m \<longrightarrow> newer m y)"

lemma winner_unique: "winner S m \<Longrightarrow> winner S m' \<Longrightarrow> m = m'"
  unfolding winner_def by (metis newer_asym)

lemma receive_winner:
  assumes "admissible T" and "insert x S \<subseteq> T" and "winner S m"
  shows "\<exists>m'. receive (Some m) x = Some m' \<and> winner (insert x S) m'"
proof (cases "newer x m")
  case True
  have "newer x y" if "y \<in> S" "y \<noteq> x" for y
  proof (cases "y = m")
    case False
    with that assms(3) have "newer m y"
      by (simp add: winner_def)
    moreover have "x \<in> T" and "m \<in> T" and "y \<in> T"
      using assms(2,3) that(1) by (auto simp: winner_def)
    ultimately show ?thesis
      using newer_trans [OF assms(1), of x m y] True by blast
  qed (simp add: True)
  with True show ?thesis
    by (auto simp: receive_Some winner_def)
next
  case False
  have "newer m x" if "x \<noteq> m"
    using newer_total [OF assms(1), of x m] that False assms(2,3) by (auto simp: winner_def)
  with False assms(3) show ?thesis
    by (auto simp: receive_Some winner_def)
qed

lemma receive_all_from:
  assumes "admissible T" and "S \<union> set xs \<subseteq> T" and "winner S m"
  shows "\<exists>m'. foldl receive (Some m) xs = Some m' \<and> winner (S \<union> set xs) m'"
  using assms(2,3)
proof (induction xs arbitrary: S m)
  case (Cons x xs)
  then obtain m1 where m1: "receive (Some m) x = Some m1" "winner (insert x S) m1"
    using receive_winner [OF assms(1), of x S m] by auto
  have "insert x S \<union> set xs \<subseteq> T"
    using Cons.prems(1) by auto
  from Cons.IH [OF this m1(2)] m1(1) show ?case
    by simp
qed simp

lemma receive_all_winner:
  assumes "admissible (set xs)" and "xs \<noteq> []"
  shows "\<exists>m. foldl receive None xs = Some m \<and> winner (set xs) m"
proof (cases xs)
  case (Cons y ys)
  have "winner {y} y"
    by (simp add: winner_def)
  with receive_all_from [OF assms(1), of "{y}" ys y] Cons show ?thesis
    by (simp add: receive_None)
qed (simp add: assms(2))

text \<open>Strong convergence: the order and the number of deliveries do not matter.\<close>

lemma receive_all_converges:
  assumes "admissible (set xs)" and "set ys = set xs"
  shows "foldl receive None xs = foldl receive None ys"
proof (cases "xs = []")
  case False
  with assms(2) have "ys \<noteq> []"
    by auto
  obtain m where m: "foldl receive None xs = Some m" "winner (set xs) m"
    using receive_all_winner [OF assms(1) False] by blast
  obtain m' where m': "foldl receive None ys = Some m'" "winner (set xs) m'"
    using receive_all_winner [of ys] assms \<open>ys \<noteq> []\<close> by auto
  from winner_unique [OF m(2) m'(2)] m(1) m'(1) show ?thesis
    by simp
qed (use assms(2) in simp)

end

text \<open>
  The code's rule is a last-writer-wins register on every set of versions whose timestamps
  agree with their clocks: a dominating version is not older, and two versions of the same
  millisecond are comparable.
\<close>

definition clock_synchronous :: "'v versioned_value set \<Rightarrow> bool" where
  "clock_synchronous S \<longleftrightarrow>
     (\<forall>a \<in> S. \<forall>b \<in> S. dominates a b \<longrightarrow> timestamp b \<le> timestamp a) \<and>
     (\<forall>a \<in> S. \<forall>b \<in> S. a \<noteq> b \<and> timestamp a = timestamp b \<longrightarrow> dominates a b \<or> dominates b a)"

lemma supersedes_synchronous:
  assumes "clock_synchronous S" and "a \<in> S" and "b \<in> S"
  shows "supersedes a b \<longleftrightarrow>
    timestamp b < timestamp a \<or> timestamp a = timestamp b \<and> dominates a b"
proof -
  have "dominates a b \<Longrightarrow> timestamp b \<le> timestamp a" "dominates b a \<Longrightarrow> timestamp a \<le> timestamp b"
    using assms by (auto simp: clock_synchronous_def)
  then show ?thesis
    by (auto simp: supersedes_def)
qed

lemma supersedes_trans:
  assumes S: "clock_synchronous S" and "x \<in> S" "y \<in> S" "z \<in> S"
    and xy: "supersedes x y" and yz: "supersedes y z"
  shows "supersedes x z"
proof -
  have "timestamp y < timestamp x \<or> timestamp x = timestamp y \<and> dominates x y"
    and "timestamp z < timestamp y \<or> timestamp y = timestamp z \<and> dominates y z"
    using assms by (simp_all add: supersedes_synchronous [OF S])
  then have "timestamp z < timestamp x \<or> timestamp x = timestamp z \<and> dominates x z"
    using dominates_trans [of x y z] by auto
  with assms show ?thesis
    by (simp add: supersedes_synchronous [OF S])
qed

lemma supersedes_total:
  assumes S: "clock_synchronous S" and "x \<in> S" "y \<in> S" "x \<noteq> y"
  shows "supersedes x y \<or> supersedes y x"
proof (cases "timestamp x = timestamp y")
  case True
  with assms have "dominates x y \<or> dominates y x"
    by (simp add: clock_synchronous_def)
  then show ?thesis
    by (auto simp: supersedes_def)
next
  case False
  then show ?thesis
    using assms by (auto simp: supersedes_synchronous [OF S] neq_iff)
qed

interpretation lww: lww_register supersedes merge_cell clock_synchronous
proof unfold_locales
  show "clock_synchronous S \<Longrightarrow> x \<in> S \<Longrightarrow> y \<in> S \<Longrightarrow> z \<in> S \<Longrightarrow>
      supersedes x y \<Longrightarrow> supersedes y z \<Longrightarrow> supersedes x z"
    for S and x y z :: "'v versioned_value"
    by (rule supersedes_trans)
qed (auto simp: merge_cell_def merge_version_def dest: supersedes_asym supersedes_total)

section \<open>Properties of versions\<close>

text \<open>
  C22: the two loops of the clock comparison, run in any iteration order of the two hash maps,
  decide exactly the strict pointwise order of the clocks, in which absent nodes count zero.
\<close>

theorem dominates_pointwise:
  "dominates_in f a b \<longleftrightarrow> (\<forall>n. clk b n \<le> clk a n) \<and> (\<exists>n. clk b n < clk a n)"
  by (rule dominates_in_iff)

text \<open>
  The clock comparison is a strict partial order, so two versions are either ordered in
  one direction or concurrent, and the conflict rule never lets two versions replace each
  other.
\<close>

theorem dominates_strict_order:
  "\<not> dominates a a \<and>
   (dominates a b \<longrightarrow> \<not> dominates b a) \<and>
   (dominates a b \<and> dominates b c \<longrightarrow> dominates a c) \<and>
   \<not> (supersedes a b \<and> supersedes b a)"
  using dominates_asym [of a b] dominates_trans [of a b c] supersedes_asym [of a b] by auto

theorem dominates_strict_order_witness:
  "\<not> dominates (vv_new 1 (fmempty :: (string, nat) fmap) ''u'' ''a'')
       (vv_update 2 fmempty ''b'' (vv_new 1 fmempty ''u'' ''a''))"
proof -
  have "dominates (vv_update 2 fmempty ''b'' (vv_new 1 (fmempty :: (string, nat) fmap) ''u'' ''a''))
      (vv_new 1 fmempty ''u'' ''a'')"
    by code_simp
  with dominates_strict_order [of _ "vv_new 1 (fmempty :: (string, nat) fmap) ''u'' ''a''"]
  show ?thesis
    by blast
qed

text \<open>
  A write wins over the version it was made from. An update or patch at a node whose
  counter has not reached the largest 64-bit value dominates the old version, whatever the
  wall clock says, so every replica that holds either one ends up with the new one.
\<close>

theorem write_supersedes_base:
  assumes "clk old node \<noteq> u64_max"
    and "new = vv_update now val node old \<or> new = vv_patch now f upd node old"
  shows "dominates new old \<and> merge_version new old = new \<and> merge_version old new = new"
proof -
  have "dominates new old"
    using assms by (auto intro!: dominates_bump [where m = node] simp: clk_simps)
  then show ?thesis
    by (simp add: merge_dominated)
qed

theorem write_supersedes_base_witness:
  "dominates (vv_patch 0 sorted_order (fmupd ''f'' (1::nat) fmempty) ''n''
      (vv_new 9 fmempty ''u'' ''n'')) (vv_new 9 fmempty ''u'' ''n'')"
proof -
  have "clk (vv_new 9 (fmempty :: (string, nat) fmap) ''u'' ''n'') ''n'' \<noteq> u64_max"
    by (simp add: clk_new)
  from write_supersedes_base [OF this disjI2 [OF refl]] show ?thesis
    by blast
qed

text \<open>
  A wrapped counter loses. When the counter of the writing node is at the largest 64-bit
  value, the increment wraps to zero and the old version dominates the new one: replicas
  refuse the write.
\<close>

theorem counter_wrap_loses:
  assumes "clk old node = u64_max"
  shows "clk (vv_update now val node old) node = 0 \<and>
    dominates old (vv_update now val node old) \<and>
    merge_version (vv_update now val node old) old = old"
  using assms dominates_wrapped [of "vv_update now val node old" node old]
  by (simp add: clk_simps merge_dominated)

theorem counter_wrap_loses_witness:
  "merge_version
      (vv_update 2 fmempty ''n'' ((vv_new 1 (fmempty :: (string, nat) fmap) ''u'' ''n'')
        \<lparr>vector_clock := fmupd ''n'' u64_max fmempty\<rparr>))
      ((vv_new 1 fmempty ''u'' ''n'')\<lparr>vector_clock := fmupd ''n'' u64_max fmempty\<rparr>) =
   (vv_new 1 fmempty ''u'' ''n'')\<lparr>vector_clock := fmupd ''n'' u64_max fmempty\<rparr>"
proof -
  have "clk ((vv_new 1 (fmempty :: (string, nat) fmap) ''u'' ''n'')
      \<lparr>vector_clock := fmupd ''n'' u64_max fmempty\<rparr>) ''n'' = u64_max"
    by (simp add: clk_def)
  from counter_wrap_loses [OF this] show ?thesis
    by blast
qed

text \<open>
  A patch changes the named fields only. The patched payload maps every field of the
  update to its new value and every other field to its old one, in whatever order the update
  is iterated, and keeps the owner.
\<close>

theorem patch_merges_fields:
  "fmlookup (vvalue (vv_patch now f upd node old)) field =
     (case fmlookup upd field of Some x \<Rightarrow> Some x | None \<Rightarrow> fmlookup (vvalue old) field) \<and>
   owner (vv_patch now f upd node old) = owner old"
  by (auto simp: fmlookup_dom_iff split: option.splits)

text \<open>
  Concurrent versions of the same millisecond stay apart. Two different versions that
  neither dominates and that carry equal timestamps never replace each other: each replica
  keeps the one it has, however often the other is delivered.
\<close>

theorem concurrent_tie_diverges:
  assumes "\<not> dominates a b" and "\<not> dominates b a" and "timestamp a = timestamp b"
  shows "foldl merge_cell (Some a) (replicate n b) = Some a \<and>
    foldl merge_cell (Some b) (replicate m a) = Some b"
proof -
  have "merge_cell (Some a) b = Some a" and "merge_cell (Some b) a = Some b"
    using assms by (simp_all add: merge_cell_def merge_version_def supersedes_def)
  then have "foldl merge_cell (Some a) (replicate n b) = Some a"
    and "foldl merge_cell (Some b) (replicate m a) = Some b"
    by (induction n, simp_all) (induction m, simp_all)
  then show ?thesis ..
qed

theorem concurrent_tie_diverges_witness:
  "foldl merge_cell (Some (vv_new 7 (fmupd ''f'' (1::nat) fmempty) ''u'' ''a''))
      [vv_new 7 fmempty ''u'' ''b''] = Some (vv_new 7 (fmupd ''f'' 1 fmempty) ''u'' ''a'') \<and>
   foldl merge_cell (Some (vv_new 7 fmempty ''u'' ''b''))
      [vv_new 7 (fmupd ''f'' (1::nat) fmempty) ''u'' ''a''] = Some (vv_new 7 fmempty ''u'' ''b'')"
proof -
  let ?a = "vv_new 7 (fmupd ''f'' (1::nat) fmempty) ''u'' ''a''"
  let ?b = "vv_new 7 (fmempty :: (string, nat) fmap) ''u'' ''b''"
  have "\<not> dominates ?a ?b" and "\<not> dominates ?b ?a"
    by code_simp+
  from concurrent_tie_diverges [OF this, of 1 1] show ?thesis
    by simp
qed

end
