(* ===== verification/Subscription.thy ===== *)
theory Subscription
  imports Versioned
begin

text \<open>
  The subscription manager of \<^verbatim>\<open>storage/subscription.rs\<close>: one broadcast channel per
  \<^verbatim>\<open>table/key\<close> identifier, created by the first subscriber and removed when a notification
  finds nobody listening, and the event stream built on a receiver. The channels themselves
  (\<^verbatim>\<open>tokio::sync::broadcast\<close>) are a parameter, a record of the operations the code calls;
  what the code relies on is the locale \<open>broadcast_channel\<close>.
\<close>

section \<open>Events and channels\<close>

datatype 'v key_event = Updated "'v versioned_value" | Deleted

datatype 'v recv_result = RecvOk "'v key_event" | RecvLagged u64 | RecvClosed

record ('v, 'c) broadcast =
  bc_channel :: "nat \<Rightarrow> nat \<times> 'c"
  bc_subscribe :: "'c \<Rightarrow> nat \<times> 'c"
  bc_send :: "'c \<Rightarrow> 'v key_event \<Rightarrow> bool \<times> 'c"
  bc_receiver_count :: "'c \<Rightarrow> nat"

section \<open>The manager\<close>

type_synonym 'c channel_map = "(string, 'c) fmap"

definition sub_manager_new :: "'c channel_map" where
  "sub_manager_new = fmempty"

definition channel_id :: "string \<Rightarrow> string \<Rightarrow> string" where
  "channel_id table key = table @ ''/'' @ key"

definition subscribe ::
    "('v, 'c) broadcast \<Rightarrow> string \<Rightarrow> string \<Rightarrow> 'c channel_map \<Rightarrow> nat \<times> 'c channel_map" where
  "subscribe bc table key chans =
     (let i = channel_id table key in
      case fmlookup chans i of
        Some sender \<Rightarrow> (let (rx, sender') = bc_subscribe bc sender in (rx, fmupd i sender' chans))
      | None \<Rightarrow> (let (rx, tx) = bc_channel bc 16 in (rx, fmupd i tx chans)))"

lemma channel_id_inject:
  assumes "CHR ''/'' \<notin> set t" and "CHR ''/'' \<notin> set t'" and "channel_id t k = channel_id t' k'"
  shows "t = t' \<and> k = k'"
proof -
  have "takeWhile (\<lambda>c. c \<noteq> CHR ''/'') (channel_id u x) = u" if "CHR ''/'' \<notin> set u" for u x
    using that by (simp add: channel_id_def takeWhile_append)
  with assms have "t = t'"
    by metis
  with assms(3) show ?thesis
    by (simp add: channel_id_def)
qed

text \<open>
  \<^verbatim>\<open>notify\<close> works in two critical sections: sending under the read lock, and the removal under
  the write lock, which looks the channel up again.
\<close>

definition notify_send ::
    "('v, 'c) broadcast \<Rightarrow> string \<Rightarrow> 'v key_event \<Rightarrow> 'c channel_map \<Rightarrow> bool \<times> 'c channel_map" where
  "notify_send bc i event chans =
     (case fmlookup chans i of
        Some sender \<Rightarrow>
          (let (ok, sender') = bc_send bc sender event in (\<not> ok, fmupd i sender' chans))
      | None \<Rightarrow> (False, chans))"

definition notify_cleanup ::
    "('v, 'c) broadcast \<Rightarrow> string \<Rightarrow> 'c channel_map \<Rightarrow> 'c channel_map" where
  "notify_cleanup bc i chans =
     (case fmlookup chans i of
        Some sender \<Rightarrow> if bc_receiver_count bc sender = 0 then fmdrop i chans else chans
      | None \<Rightarrow> chans)"

definition notify ::
    "('v, 'c) broadcast \<Rightarrow> string \<Rightarrow> string \<Rightarrow> 'v key_event \<Rightarrow> 'c channel_map \<Rightarrow> 'c channel_map" where
  "notify bc table key event chans =
     (let i = channel_id table key;
          (should_cleanup, chans') = notify_send bc i event chans
      in if should_cleanup then notify_cleanup bc i chans' else chans')"

lemma notify_other_channel:
  assumes "channel_id t k \<noteq> i"
  shows "fmlookup (notify bc' t k e chans) i = fmlookup chans i"
proof -
  have "fmlookup (snd (notify_send bc' j e cs)) i = fmlookup cs i"
    and "fmlookup (notify_cleanup bc' j cs) i = fmlookup cs i" if "j \<noteq> i" for j cs
    using that by (auto simp: notify_send_def notify_cleanup_def Let_def split: option.splits prod.splits)
  with assms show ?thesis
    by (simp add: notify_def case_prod_beta Let_def)
qed

text \<open>
  \<^verbatim>\<open>subscribe_to_key\<close>: the frames the response body yields for the results the receiver
  returns. \<open>to_json\<close> is \<^verbatim>\<open>serde_json::to_string\<close>.
\<close>

fun sse_frames :: "('v key_event \<Rightarrow> string option) \<Rightarrow> 'v recv_result list \<Rightarrow> string list" where
  "sse_frames to_json [] = []"
| "sse_frames to_json (RecvOk event # rest) =
     (''data: '' @ (case to_json event of Some s \<Rightarrow> s | None \<Rightarrow> ''null'') @ [CHR 0x0A, CHR 0x0A])
       # sse_frames to_json rest"
| "sse_frames to_json (RecvLagged _ # rest) = sse_frames to_json rest"
| "sse_frames to_json (RecvClosed # rest) = []"

definition subscribe_to_key ::
    "('v, 'c) broadcast \<Rightarrow> ('v key_event \<Rightarrow> string option) \<Rightarrow> string \<Rightarrow> string \<Rightarrow>
     'c channel_map \<Rightarrow> nat \<times> ('v recv_result list \<Rightarrow> string list) \<times> 'c channel_map" where
  "subscribe_to_key bc to_json table key chans =
     (let (rx, chans') = subscribe bc table key chans in (rx, sse_frames to_json, chans'))"

section \<open>The channel interface\<close>

text \<open>
  What tokio documents and the manager relies on: \<open>receivers\<close> are the live receivers of a
  channel and \<open>pending\<close> the events a receiver has not read. A send reaches every live
  receiver and fails exactly when there is none; a receiver that is fewer than sixteen events
  behind loses nothing.
\<close>

locale broadcast_channel =
  fixes bc :: "('v, 'c) broadcast"
    and receivers :: "'c \<Rightarrow> nat set"
    and pending :: "'c \<Rightarrow> nat \<Rightarrow> 'v key_event list"
  assumes channel_receivers: "bc_channel bc 16 = (r, c) \<Longrightarrow> receivers c = {r} \<and> pending c r = []"
    and subscribe_receivers: "bc_subscribe bc c = (r, c') \<Longrightarrow>
          r \<notin> receivers c \<and> receivers c' = insert r (receivers c) \<and> pending c' r = [] \<and>
          (\<forall>q \<in> receivers c. pending c' q = pending c q)"
    and send_result: "bc_send bc c e = (ok, c') \<Longrightarrow> ok \<longleftrightarrow> receivers c \<noteq> {}"
    and send_receivers: "bc_send bc c e = (ok, c') \<Longrightarrow> receivers c' = receivers c"
    and send_pending: "bc_send bc c e = (ok, c') \<Longrightarrow> q \<in> receivers c \<Longrightarrow>
          length (pending c q) < 16 \<Longrightarrow> pending c' q = pending c q @ [e]"
    and receiver_count_zero: "bc_receiver_count bc c = 0 \<longleftrightarrow> receivers c = {}"
begin

lemma notify_same:
  "fmlookup (notify bc table key e chans) (channel_id table key) =
     (case fmlookup chans (channel_id table key) of
        None \<Rightarrow> None
      | Some c \<Rightarrow> if receivers c = {} then None else Some (snd (bc_send bc c e)))"
proof (cases "fmlookup chans (channel_id table key)")
  case (Some c)
  obtain ok c' where send: "bc_send bc c e = (ok, c')"
    by fastforce
  from send_result [OF send] send_receivers [OF send] Some send show ?thesis
    by (auto simp: notify_def notify_send_def notify_cleanup_def Let_def receiver_count_zero)
qed (simp add: notify_def notify_send_def)

lemma notify_delivers:
  assumes "fmlookup chans (channel_id table key) = Some c" and "q \<in> receivers c"
    and "length (pending c q) < 16"
  shows "\<exists>c'. fmlookup (notify bc table key e chans) (channel_id table key) = Some c' \<and>
    receivers c' = receivers c \<and> pending c' q = pending c q @ [e]"
proof -
  obtain ok c' where send: "bc_send bc c e = (ok, c')"
    by fastforce
  with assms send_receivers [OF send] send_pending [OF send] show ?thesis
    by (auto simp: notify_same)
qed

lemma subscribe_registers:
  assumes "subscribe bc table key chans = (rx, chans')"
  shows "\<exists>c. fmlookup chans' (channel_id table key) = Some c \<and> rx \<in> receivers c \<and> pending c rx = []"
proof (cases "fmlookup chans (channel_id table key)")
  case None
  then show ?thesis
    using assms channel_receivers by (auto simp: subscribe_def Let_def split: prod.splits)
next
  case (Some c)
  then show ?thesis
    using assms subscribe_receivers [of c] by (auto simp: subscribe_def Let_def split: prod.splits)
qed

lemma subscribe_other:
  "subscribe bc table key chans = (rx, chans') \<Longrightarrow> channel_id table key \<noteq> i \<Longrightarrow>
   fmlookup chans' i = fmlookup chans i"
  by (auto simp: subscribe_def Let_def split: option.splits prod.splits)

lemma subscribed_receives:
  assumes "subscribe bc table key chans = (rx, chans')"
  shows "\<exists>c. fmlookup (notify bc table key e chans') (channel_id table key) = Some c \<and>
    rx \<in> receivers c \<and> pending c rx = [e]"
proof -
  obtain c where c: "fmlookup chans' (channel_id table key) = Some c" "rx \<in> receivers c" "pending c rx = []"
    using subscribe_registers [OF assms] by blast
  with notify_delivers [OF c(1,2), of e] show ?thesis
    by auto
qed

text \<open>The removal is safe at whatever state the write lock is taken.\<close>

lemma cleanup_keeps_listeners:
  "fmlookup chans i = Some c \<Longrightarrow> receivers c \<noteq> {} \<Longrightarrow> notify_cleanup bc j chans = chans' \<Longrightarrow>
   fmlookup chans' i = Some c"
  by (auto simp: notify_cleanup_def receiver_count_zero split: option.splits if_splits)

end

section \<open>A channel with a bounded queue per receiver\<close>

text \<open>
  The documented behaviour of a channel of capacity sixteen as a concrete structure: the next
  receiver number and, for each live receiver, its unread events, of which the oldest are
  dropped beyond the capacity. It satisfies the interface.
\<close>

record 'v queue_channel =
  next_rx :: nat
  queues :: "(nat \<times> 'v key_event list) list"

definition qc_pending :: "'v queue_channel \<Rightarrow> nat \<Rightarrow> 'v key_event list" where
  "qc_pending c r = (case map_of (queues c) r of None \<Rightarrow> [] | Some q \<Rightarrow> q)"

definition qc_receivers :: "'v queue_channel \<Rightarrow> nat set" where
  "qc_receivers c = {r \<in> fst ` set (queues c). r < next_rx c}"

definition qc_ops :: "('v, 'v queue_channel) broadcast" where
  "qc_ops =
     \<lparr>bc_channel = (\<lambda>_. (0, \<lparr>next_rx = 1, queues = [(0, [])]\<rparr>)),
      bc_subscribe = (\<lambda>c. (next_rx c, \<lparr>next_rx = Suc (next_rx c),
          queues = (next_rx c, []) # filter (\<lambda>(r, _). r < next_rx c) (queues c)\<rparr>)),
      bc_send = (\<lambda>c e. (filter (\<lambda>(r, _). r < next_rx c) (queues c) \<noteq> [],
          c\<lparr>queues := map (\<lambda>(r, q). (r, drop (length q - 15) (q @ [e]))) (queues c)\<rparr>)),
      bc_receiver_count = (\<lambda>c. length (filter (\<lambda>(r, _). r < next_rx c) (queues c)))\<rparr>"

lemma map_of_map_queue:
  "map_of (map (\<lambda>(r, q). (r, f q)) xs) r = map_option f (map_of xs r)"
  by (induction xs) auto

lemma map_of_filter_key:
  "P r \<Longrightarrow> map_of (filter (\<lambda>(r, _). P r) xs) r = map_of xs r"
  by (induction xs) auto

interpretation qc: broadcast_channel qc_ops qc_receivers qc_pending
proof unfold_locales
  fix c :: "'v queue_channel" and r c' and e :: "'v key_event" and ok q
  show "bc_channel qc_ops 16 = (r, c) \<Longrightarrow> qc_receivers c = {r} \<and> qc_pending c r = []"
    by (auto simp: qc_ops_def qc_receivers_def qc_pending_def)
  show "bc_subscribe qc_ops c = (r, c') \<Longrightarrow>
      r \<notin> qc_receivers c \<and> qc_receivers c' = insert r (qc_receivers c) \<and> qc_pending c' r = [] \<and>
      (\<forall>q \<in> qc_receivers c. qc_pending c' q = qc_pending c q)"
    by (force simp: qc_ops_def qc_receivers_def qc_pending_def map_of_filter_key)
  show "bc_send qc_ops c e = (ok, c') \<Longrightarrow> ok \<longleftrightarrow> qc_receivers c \<noteq> {}"
    by (force simp: qc_ops_def qc_receivers_def filter_empty_conv)
  show "bc_send qc_ops c e = (ok, c') \<Longrightarrow> qc_receivers c' = qc_receivers c"
    by (force simp: qc_ops_def qc_receivers_def)
  show "bc_send qc_ops c e = (ok, c') \<Longrightarrow> q \<in> qc_receivers c \<Longrightarrow>
      length (qc_pending c q) < 16 \<Longrightarrow> qc_pending c' q = qc_pending c q @ [e]"
    by (auto simp: qc_ops_def qc_receivers_def qc_pending_def map_of_map_queue
        dest: weak_map_of_SomeI split: option.splits)
  show "bc_receiver_count qc_ops c = 0 \<longleftrightarrow> qc_receivers c = {}"
    by (force simp: qc_ops_def qc_receivers_def filter_empty_conv)
qed

end
