(* ===== verification/Ring.thy ===== *)
theory Ring
  imports Prelude
begin

text \<open>
  Cluster membership data and the consistent-hashing ring of \<^verbatim>\<open>storage/engine.rs\<close>:
  \<^verbatim>\<open>NodeStatus\<close>, \<^verbatim>\<open>NodeInfo\<close>, \<^verbatim>\<open>get_active_nodes\<close> and \<^verbatim>\<open>get_replication_nodes\<close>. The hash function
  (\<^verbatim>\<open>DefaultHasher\<close>, whose algorithm the standard library leaves unspecified) is a parameter.
\<close>

section \<open>Membership data\<close>

datatype node_status = Active | Suspect | Down | Leaving

text \<open>The statuses are finitely many, so quantifiers over them are executable.\<close>

instantiation node_status :: enum
begin

definition enum_node_status :: "node_status list" where
  "enum_node_status = [Active, Suspect, Down, Leaving]"

definition enum_all_node_status :: "(node_status \<Rightarrow> bool) \<Rightarrow> bool" where
  "enum_all_node_status P \<longleftrightarrow> P Active \<and> P Suspect \<and> P Down \<and> P Leaving"

definition enum_ex_node_status :: "(node_status \<Rightarrow> bool) \<Rightarrow> bool" where
  "enum_ex_node_status P \<longleftrightarrow> P Active \<or> P Suspect \<or> P Down \<or> P Leaving"

instance
proof
  show univ: "(UNIV :: node_status set) = set enum_class.enum"
    by (auto simp: enum_node_status_def intro: node_status.exhaust)
  show "distinct (enum_class.enum :: node_status list)"
    by (simp add: enum_node_status_def)
  show "enum_class.enum_all P \<longleftrightarrow> Ball UNIV P" for P :: "node_status \<Rightarrow> bool"
    unfolding enum_all_node_status_def univ by (simp add: enum_node_status_def)
  show "enum_class.enum_ex P \<longleftrightarrow> Bex UNIV P" for P :: "node_status \<Rightarrow> bool"
    unfolding enum_ex_node_status_def univ by (simp add: enum_node_status_def)
qed

end

record node_info =
  status :: node_status
  last_heartbeat :: u128

type_synonym membership = "(string, node_info) fmap"

definition get_active_nodes :: "hash_order \<Rightarrow> membership \<Rightarrow> string list" where
  "get_active_nodes f nodes =
     map fst (filter (\<lambda>(_, info). status info = Active) (iter_map f nodes))"

lemma set_get_active_nodes:
  "set (get_active_nodes f nodes) =
     {n. \<exists>info. fmlookup nodes n = Some info \<and> status info = Active}"
  by (force simp: get_active_nodes_def mem_iter_map)

lemma distinct_get_active_nodes: "distinct (get_active_nodes f nodes)"
  unfolding get_active_nodes_def
  by (meson distinct_iter_map distinct_map_filter)

section \<open>The ring\<close>

text \<open>
  \<^verbatim>\<open>BTreeMap\<close> as its sorted list of entries: insertion replaces an equal key; \<^verbatim>\<open>range(k..)\<close> and
  \<^verbatim>\<open>range(..k)\<close> are the entries from \<open>k\<close> on and those below \<open>k\<close>.
\<close>

fun btree_insert :: "'k::linorder \<Rightarrow> 'a \<Rightarrow> ('k \<times> 'a) list \<Rightarrow> ('k \<times> 'a) list" where
  "btree_insert k v [] = [(k, v)]"
| "btree_insert k v ((k', v') # xs) =
     (if k < k' then (k, v) # (k', v') # xs
      else if k = k' then (k, v) # xs
      else (k', v') # btree_insert k v xs)"

definition btree_range_from :: "'k::linorder \<Rightarrow> ('k \<times> 'a) list \<Rightarrow> ('k \<times> 'a) list" where
  "btree_range_from k m = filter (\<lambda>(k', _). k \<le> k') m"

definition btree_range_below :: "'k::linorder \<Rightarrow> ('k \<times> 'a) list \<Rightarrow> ('k \<times> 'a) list" where
  "btree_range_below k m = filter (\<lambda>(k', _). k' < k) m"

abbreviation virtual_nodes :: nat where
  "virtual_nodes \<equiv> 10"

definition vnode_name :: "string \<Rightarrow> nat \<Rightarrow> string" where
  "vnode_name node v = node @ ''#'' @ show_nat v"

definition ring_add ::
    "(string \<Rightarrow> u64) \<Rightarrow> (u64 \<times> string) list \<Rightarrow> string \<Rightarrow> (u64 \<times> string) list" where
  "ring_add hash ring node =
     foldl (\<lambda>r v. btree_insert (hash (vnode_name node v)) node r) ring [0..<virtual_nodes]"

definition build_ring :: "(string \<Rightarrow> u64) \<Rightarrow> string list \<Rightarrow> (u64 \<times> string) list" where
  "build_ring hash nodes = foldl (ring_add hash) [] nodes"

text \<open>The selection loop, with its \<^verbatim>\<open>break\<close> once enough targets are found.\<close>

fun pick_targets :: "nat \<Rightarrow> string list \<Rightarrow> string list \<Rightarrow> string list" where
  "pick_targets rf targets [] = targets"
| "pick_targets rf targets (node # rest) =
     (if node \<notin> set targets then
        (let targets' = targets @ [node] in
         if length targets' = rf then targets' else pick_targets rf targets' rest)
      else pick_targets rf targets rest)"

definition ring_walk :: "(string \<Rightarrow> u64) \<Rightarrow> string \<Rightarrow> string list \<Rightarrow> string list" where
  "ring_walk hash key nodes =
     (let ring = build_ring hash nodes; key_hash = hash key in
      map snd (btree_range_from key_hash ring) @ map snd (btree_range_below key_hash ring))"

definition get_replication_nodes ::
    "(string \<Rightarrow> u64) \<Rightarrow> string \<Rightarrow> string list \<Rightarrow> nat \<Rightarrow> string list" where
  "get_replication_nodes hash key nodes replication_factor =
     (if nodes = [] then []
      else let rf = min replication_factor (length nodes) in
        pick_targets rf [] (ring_walk hash key nodes))"

section \<open>Selection\<close>

text \<open>What the loop computes: the first occurrences along the walk, cut at the factor.\<close>

fun first_occurrences :: "'a list \<Rightarrow> 'a list" where
  "first_occurrences [] = []"
| "first_occurrences (x # xs) = x # filter (\<lambda>y. y \<noteq> x) (first_occurrences xs)"

lemma set_first_occurrences [simp]: "set (first_occurrences xs) = set xs"
  by (induction xs) auto

lemma distinct_first_occurrences [simp]: "distinct (first_occurrences xs)"
  by (induction xs) auto

lemma first_occurrences_filter: "first_occurrences (filter P xs) = filter P (first_occurrences xs)"
  by (induction xs) (auto simp: conj_commute intro!: filter_cong)

lemma pick_targets_take:
  "length targets < rf \<Longrightarrow>
   pick_targets rf targets xs =
     take rf (targets @ filter (\<lambda>y. y \<notin> set targets) (first_occurrences xs))"
proof (induction rf targets xs rule: pick_targets.induct)
  case (2 rf targets node rest)
  show ?case
  proof (cases "node \<in> set targets")
    case True
    have "filter (\<lambda>y. y \<notin> set targets) (filter (\<lambda>y. y \<noteq> node) ys) =
        filter (\<lambda>y. y \<notin> set targets) ys" for ys
      using True by (auto intro: filter_cong)
    with True 2 show ?thesis
      by simp
  next
    case False
    then have rest: "filter (\<lambda>y. y \<notin> set targets) (first_occurrences (node # rest)) =
        node # filter (\<lambda>y. y \<notin> set (targets @ [node])) (first_occurrences rest)"
      by (auto intro: filter_cong)
    show ?thesis
    proof (cases "Suc (length targets) = rf")
      case True
      with False show ?thesis
        by (simp add: rest True [symmetric] del: first_occurrences.simps)
    next
      case neq: False
      with "2.prems" have "length (targets @ [node]) < rf"
        by simp
      with 2 False neq show ?thesis
        by (simp add: rest del: first_occurrences.simps)
    qed
  qed
qed simp

section \<open>The ring as a map\<close>

lemma map_of_btree_insert: "map_of (btree_insert k v m) = (map_of m)(k \<mapsto> v)"
  by (induction k v m rule: btree_insert.induct) auto

lemma keys_btree_insert: "fst ` set (btree_insert k v m) = insert k (fst ` set m)"
  by (induction k v m rule: btree_insert.induct) auto

lemma sorted_btree_insert:
  "sorted_wrt (<) (map fst m) \<Longrightarrow> sorted_wrt (<) (map fst (btree_insert k v m))"
proof (induction k v m rule: btree_insert.induct)
  case (2 k v k' v' xs)
  have "\<forall>y \<in> fst ` set (btree_insert k v xs). k' < y" if "k' < k"
    using that 2 by (auto simp: keys_btree_insert)
  with 2 show ?case
    by (auto simp: image_iff)
qed simp

definition ring_entries :: "(string \<Rightarrow> u64) \<Rightarrow> string list \<Rightarrow> (u64 \<times> string) list" where
  "ring_entries hash nodes =
     concat (map (\<lambda>n. map (\<lambda>v. (hash (vnode_name n v), n)) [0..<virtual_nodes]) nodes)"

lemma build_ring_entries:
  "build_ring hash nodes = foldl (\<lambda>r (h, n). btree_insert h n r) [] (ring_entries hash nodes)"
proof -
  have add: "ring_add hash r n =
      foldl (\<lambda>r (h, n). btree_insert h n r) r (map (\<lambda>v. (hash (vnode_name n v), n)) [0..<virtual_nodes])"
    for r n
    unfolding ring_add_def by (simp only: foldl_map prod.case)
  have "foldl (ring_add hash) r nodes =
      foldl (\<lambda>r (h, n). btree_insert h n r) r (ring_entries hash nodes)" for r
    by (induction nodes arbitrary: r) (simp_all add: ring_entries_def add del: upt_Suc upt_rec_numeral)
  then show ?thesis
    by (simp add: build_ring_def)
qed

lemma set_ring_entries:
  "set (ring_entries hash nodes) =
     {(hash (vnode_name n v), n) | n v. n \<in> set nodes \<and> v < virtual_nodes}"
  by (auto simp: ring_entries_def)

lemma sorted_build_ring: "sorted_wrt (<) (map fst (build_ring hash nodes))"
proof -
  have "sorted_wrt (<) (map fst r) \<Longrightarrow>
      sorted_wrt (<) (map fst (foldl (\<lambda>r (h, n). btree_insert h n r) r es))"
    for r :: "(u64 \<times> string) list" and es
    by (induction es arbitrary: r) (auto simp: sorted_btree_insert)
  then show ?thesis
    by (simp add: build_ring_entries)
qed

lemma map_of_ring_inserts:
  "map_of (foldl (\<lambda>r (h, n). btree_insert h n r) r es) h =
     (case map_of (rev es) h of None \<Rightarrow> map_of r h | Some n \<Rightarrow> Some n)"
  by (induction es arbitrary: r)
    (auto simp: map_of_btree_insert map_add_def split: option.splits)

lemma ring_subset: "set (build_ring hash nodes) \<subseteq> set (ring_entries hash nodes)"
proof
  fix x assume x: "x \<in> set (build_ring hash nodes)"
  obtain h n where hn: "x = (h, n)"
    by fastforce
  have "distinct (map fst (build_ring hash nodes))"
    using sorted_build_ring strict_sorted_iff by blast
  with x hn have "map_of (build_ring hash nodes) h = Some n"
    by simp
  then have "map_of (rev (ring_entries hash nodes)) h = Some n"
    by (simp add: build_ring_entries map_of_ring_inserts split: option.splits)
  then show "x \<in> set (ring_entries hash nodes)"
    using hn by (auto dest: map_of_SomeD)
qed

text \<open>
  No two virtual positions of different nodes hash to the same place. Positions of one node
  may coincide: they carry the same node.
\<close>

definition collision_free :: "(string \<Rightarrow> u64) \<Rightarrow> string list \<Rightarrow> bool" where
  "collision_free hash nodes \<longleftrightarrow>
     (\<forall>n \<in> set nodes. \<forall>n' \<in> set nodes.
        \<forall>v \<in> set [0..<virtual_nodes]. \<forall>v' \<in> set [0..<virtual_nodes].
          hash (vnode_name n v) = hash (vnode_name n' v') \<longrightarrow> n = n')"

lemma collision_free_cong: "set ns = set ns' \<Longrightarrow> collision_free hash ns = collision_free hash ns'"
  by (simp add: collision_free_def)

lemma collision_free_entries:
  "collision_free hash nodes \<Longrightarrow> (h, n) \<in> set (ring_entries hash nodes) \<Longrightarrow>
   (h, n') \<in> set (ring_entries hash nodes) \<Longrightarrow> n = n'"
  unfolding collision_free_def set_ring_entries
  by clarsimp (metis atLeastLessThan_iff le0)

lemma set_build_ring:
  assumes "collision_free hash nodes"
  shows "set (build_ring hash nodes) = set (ring_entries hash nodes)"
proof
  show "set (ring_entries hash nodes) \<subseteq> set (build_ring hash nodes)"
  proof
    fix x assume x: "x \<in> set (ring_entries hash nodes)"
    obtain h n where hn: "x = (h, n)"
      by fastforce
    with x have "h \<in> fst ` set (rev (ring_entries hash nodes))"
      by force
    then obtain n' where n': "map_of (rev (ring_entries hash nodes)) h = Some n'"
      by (metis not_None_eq map_of_eq_None_iff)
    then have "(h, n') \<in> set (ring_entries hash nodes)"
      by (auto dest: map_of_SomeD)
    with x hn assms have "n' = n"
      by (auto dest: collision_free_entries)
    with n' have "map_of (build_ring hash nodes) h = Some n"
      by (simp add: build_ring_entries map_of_ring_inserts)
    then show "x \<in> set (build_ring hash nodes)"
      using hn by (auto dest: map_of_SomeD)
  qed
qed (rule ring_subset)

lemma sorted_entries_unique:
  fixes xs ys :: "(u64 \<times> string) list"
  assumes "sorted_wrt (<) (map fst xs)" and "sorted_wrt (<) (map fst ys)" and "set xs = set ys"
  shows "xs = ys"
proof (rule map_sorted_distinct_set_unique [where f = fst])
  have "distinct (map fst xs)"
    using assms(1) strict_sorted_iff by blast
  then show "inj_on fst (set xs \<union> set ys)"
    using assms(3) by (simp add: distinct_map)
qed (use assms strict_sorted_iff in blast)+

section \<open>Preference lists\<close>

lemma set_ring_walk: "set (ring_walk hash key nodes) = snd ` set (build_ring hash nodes)"
  by (auto simp: ring_walk_def Let_def btree_range_from_def btree_range_below_def image_iff
      not_less Bex_def)

lemma ring_walk_subset: "set (ring_walk hash key nodes) \<subseteq> set nodes"
  using ring_subset [of hash nodes] by (auto simp: set_ring_walk set_ring_entries)

lemma set_ring_walk_full: "collision_free hash nodes \<Longrightarrow> set (ring_walk hash key nodes) = set nodes"
proof -
  assume "collision_free hash nodes"
  then have "set (ring_walk hash key nodes) = snd ` set (ring_entries hash nodes)"
    by (simp add: set_ring_walk set_build_ring)
  also have "\<dots> = set nodes"
    by (simp add: ring_entries_def image_UN image_image image_constant_conv)
  finally show ?thesis .
qed

lemma get_replication_nodes_take:
  assumes "0 < rf"
  shows "get_replication_nodes hash key nodes rf =
    take (min rf (length nodes)) (first_occurrences (ring_walk hash key nodes))"
  using assms by (auto simp: get_replication_nodes_def Let_def pick_targets_take)

lemma length_first_occurrences_walk:
  "length (first_occurrences (ring_walk hash key nodes)) \<le> length nodes"
proof -
  have "length (first_occurrences (ring_walk hash key nodes)) = card (set (ring_walk hash key nodes))"
    by (metis distinct_card distinct_first_occurrences set_first_occurrences)
  also have "\<dots> \<le> card (set nodes)"
    by (simp add: card_mono ring_walk_subset)
  finally show ?thesis
    by (meson card_length order_trans)
qed

lemma get_replication_nodes_all:
  "get_replication_nodes hash key nodes (length nodes) =
     first_occurrences (ring_walk hash key nodes)"
proof (cases "nodes = []")
  case True
  then have "ring_walk hash key nodes = []"
    using ring_walk_subset [of hash key nodes] by simp
  with True show ?thesis
    by (simp add: get_replication_nodes_def)
next
  case False
  then show ?thesis
    by (simp add: get_replication_nodes_take length_first_occurrences_walk)
qed

lemma ring_walk_cong:
  assumes "collision_free hash ns" and "set ns = set ns'"
  shows "ring_walk hash key ns = ring_walk hash key ns'"
proof -
  have "set (build_ring hash ns) = set (build_ring hash ns')"
    using assms collision_free_cong [OF assms(2)] by (simp add: set_build_ring set_ring_entries)
  then have "build_ring hash ns = build_ring hash ns'"
    by (simp add: sorted_entries_unique sorted_build_ring)
  then show ?thesis
    by (simp add: ring_walk_def)
qed

lemma sorted_filter_keys:
  "sorted_wrt (<) (map fst xs) \<Longrightarrow> sorted_wrt (<) (map fst (filter P xs))"
  by (induction xs) auto

lemma build_ring_remove:
  assumes "collision_free hash nodes"
  shows "build_ring hash (filter (\<lambda>n. n \<noteq> x) nodes) = filter (\<lambda>(_, n). n \<noteq> x) (build_ring hash nodes)"
proof (rule sorted_entries_unique)
  have "collision_free hash (filter (\<lambda>n. n \<noteq> x) nodes)"
    using assms by (simp add: collision_free_def)
  then show "set (build_ring hash (filter (\<lambda>n. n \<noteq> x) nodes)) =
      set (filter (\<lambda>(_, n). n \<noteq> x) (build_ring hash nodes))"
    using assms by (auto simp: set_build_ring set_ring_entries)
qed (simp_all add: sorted_build_ring sorted_filter_keys)

lemma ring_walk_remove:
  assumes "collision_free hash nodes"
  shows "ring_walk hash key (filter (\<lambda>n. n \<noteq> x) nodes) =
    filter (\<lambda>n. n \<noteq> x) (ring_walk hash key nodes)"
  using assms
  by (simp add: ring_walk_def Let_def build_ring_remove btree_range_from_def btree_range_below_def
      filter_map o_def case_prod_beta conj_commute)

section \<open>Properties of the replication targets\<close>

text \<open>
  The replication targets of a key are distinct members of the given node list, at most
  as many as the (positive) replication factor and the number of nodes allow.
\<close>

theorem replication_targets_sound:
  assumes "0 < rf"
  shows "distinct (get_replication_nodes hash key nodes rf) \<and>
    set (get_replication_nodes hash key nodes rf) \<subseteq> set nodes \<and>
    length (get_replication_nodes hash key nodes rf) \<le> min rf (length nodes)"
proof -
  let ?walk = "first_occurrences (ring_walk hash key nodes)"
  have "set (take (min rf (length nodes)) ?walk) \<subseteq> set nodes"
    using set_take_subset [of _ ?walk] ring_walk_subset [of hash key nodes] by fastforce
  then show ?thesis
    using assms by (simp add: get_replication_nodes_take distinct_take min_le_iff_disj)
qed

theorem replication_targets_sound_witness:
  "set (get_replication_nodes (\<lambda>s. of_nat (length s)) ''key'' [''a'', ''bb''] 1) \<subseteq> {''a'', ''bb''}"
  using replication_targets_sound [of 1 "\<lambda>s. of_nat (length s)" "''key''" "[''a'', ''bb'']"] by simp

text \<open>
  C23: with the factor the handlers use (the number of active nodes), every node is a target
  of every key, once, unless ring positions of different nodes collide.
\<close>

theorem replication_reaches_all:
  assumes "collision_free hash nodes" and "distinct nodes"
  shows "mset (get_replication_nodes hash key nodes (length nodes)) = mset nodes"
  using assms
  by (simp add: get_replication_nodes_all set_ring_walk_full set_eq_iff_mset_eq_distinct [symmetric])

theorem replication_reaches_all_witness:
  "mset (get_replication_nodes (\<lambda>s. of_nat (length s)) ''key'' [''a'', ''bb''] 2) = {#''a'', ''bb''#}"
proof -
  have "collision_free (\<lambda>s. of_nat (length s)) [''a'', ''bb'']"
    by code_simp
  from replication_reaches_all [OF this, of "''key''"] show ?thesis
    by (simp add: numeral_2_eq_2)
qed

text \<open>
  All nodes agree on the targets. The preference list of a key depends on the set of
  active nodes only, not on the order in which a node's hash map lists them.
\<close>

theorem replication_order_independent:
  assumes "collision_free hash nodes" and "mset nodes' = mset nodes"
  shows "get_replication_nodes hash key nodes' rf = get_replication_nodes hash key nodes rf"
proof -
  have "set nodes = set nodes'" and "length nodes' = length nodes"
    using assms(2) by (metis set_mset_mset, metis size_mset)
  moreover from this have "ring_walk hash key nodes' = ring_walk hash key nodes"
    using ring_walk_cong [OF assms(1), of nodes'] by simp
  moreover have "nodes' = [] \<longleftrightarrow> nodes = []"
    using calculation(2) by auto
  ultimately show ?thesis
    by (simp add: get_replication_nodes_def)
qed

theorem replication_order_independent_witness:
  "get_replication_nodes (\<lambda>s. of_nat (length s)) ''key'' [''bb'', ''a''] 1 =
   get_replication_nodes (\<lambda>s. of_nat (length s)) ''key'' [''a'', ''bb''] 1"
proof -
  have "collision_free (\<lambda>s. of_nat (length s)) [''a'', ''bb'']"
    by code_simp
  then show ?thesis
    by (rule replication_order_independent) simp
qed

text \<open>
  C24: consistent hashing. When a node leaves, the preference list of every key is the old one
  without that node: the remaining nodes keep their relative order, so a key moves only away
  from the node that left.
\<close>

theorem consistent_hashing_removal:
  assumes "collision_free hash nodes"
  shows "get_replication_nodes hash key (filter (\<lambda>n. n \<noteq> x) nodes)
      (length (filter (\<lambda>n. n \<noteq> x) nodes)) =
    filter (\<lambda>n. n \<noteq> x) (get_replication_nodes hash key nodes (length nodes))"
  using assms by (simp add: get_replication_nodes_all ring_walk_remove first_occurrences_filter)

theorem consistent_hashing_removal_witness:
  "get_replication_nodes (\<lambda>s. of_nat (length s)) ''key'' [''bb''] 1 =
   filter (\<lambda>n. n \<noteq> ''a'')
     (get_replication_nodes (\<lambda>s. of_nat (length s)) ''key'' [''a'', ''bb''] 2)"
proof -
  have "collision_free (\<lambda>s. of_nat (length s)) [''a'', ''bb'']"
    by code_simp
  from consistent_hashing_removal [OF this, of "''key''" "''a''"] show ?thesis
    by (simp add: numeral_2_eq_2)
qed

end
