(* ===== verification/Http.thy ===== *)
theory Http
  imports Subscription Ring
begin

text \<open>
  The surroundings of a request handler: the request headers, the response, the messages a
  handler sends to other nodes, the state of a node, and the process environment. Everything
  that is not code of the repository (wall clock, hash functions, JSON web tokens, broadcast
  channels) is a field of the environment record. The token checks of \<^verbatim>\<open>engine.rs\<close> and
  \<^verbatim>\<open>admin.rs\<close> and the address rendering of \<^verbatim>\<open>broadcaster.rs\<close> are here too.
\<close>

section \<open>Requests and responses\<close>

text \<open>A header value either reads as text (\<^verbatim>\<open>to_str\<close> succeeds) or holds opaque bytes.\<close>

datatype header_value = HText string | HOpaque

fun to_str :: "header_value \<Rightarrow> string option" where
  "to_str (HText s) = Some s"
| "to_str HOpaque = None"

type_synonym http_request = "(string, header_value) fmap"

text \<open>
  The bodies the handlers produce, one constructor per JSON shape; \<open>NoResponse\<close> stands for a
  handler that panicked.
\<close>

datatype 'v body =
    NoBody
  | NoResponse
  | Text string
  | ErrorJson string
  | MessageJson string
  | StatusJson string
  | RecordJson "'v versioned_value"
  | MaybeRecordJson "'v versioned_value option"
  | RecordsJson "(string, 'v versioned_value) fmap"
  | StoreJson "(string, (string, 'v versioned_value) fmap) fmap"
  | KeysJson "string list"
  | NodesJson membership
  | MembershipJson membership nat u128
  | HeartbeatJson u128
  | TokenJson string "string option"

record 'v response =
  code :: nat
  body :: "'v body"

definition respond :: "nat \<Rightarrow> 'v body \<Rightarrow> 'v response" where
  "respond c b = \<lparr>code = c, body = b\<rparr>"

lemma respond_simps [simp]:
  "code (respond c b) = c" "body (respond c b) = b"
  "respond c b = respond c' b' \<longleftrightarrow> c = c' \<and> b = b'"
  by (simp_all add: respond_def)

text \<open>
  A header reads back as text (\<^verbatim>\<open>HeaderValue::to_str\<close>) if it consists of visible ASCII characters,
  blanks and tabs.
\<close>

definition header_text :: "string \<Rightarrow> bool" where
  "header_text s \<longleftrightarrow> (\<forall>c \<in> set s. c = CHR 0x09 \<or> CHR 0x20 \<le> c \<and> c < CHR 0x7F)"

definition header_of :: "string \<Rightarrow> header_value" where
  "header_of s = (if header_text s then HText s else HOpaque)"

lemma header_of_text [simp]: "header_text s \<Longrightarrow> header_of s = HText s"
  by (simp add: header_of_def)

section \<open>Messages to other nodes\<close>

text \<open>
  The requests a node issues in the background. The last component of the first two is the
  number of attempts the sending task makes.
\<close>

datatype 'v outgoing =
    PutInternal (target: string) (out_table: string) (out_key: string) "'v versioned_value" string nat
  | DeleteKey (target: string) (out_table: string) (out_key: string) string nat
  | ReplicateUser (target: string) (out_user: string) string string
  | GossipMembership (target: string) string membership string

fun outgoing_url :: "'v outgoing \<Rightarrow> string" where
  "outgoing_url (PutInternal t tbl k _ _ _) =
     ''http://'' @ t @ ''/internal/'' @ tbl @ ''/key/'' @ k"
| "outgoing_url (DeleteKey t tbl k _ _) = ''http://'' @ t @ ''/'' @ tbl @ ''/key/'' @ k"
| "outgoing_url (ReplicateUser t u _ _) = ''http://'' @ t @ ''/auth/'' @ u"
| "outgoing_url (GossipMembership _ url _ _) = url"

section \<open>Tokens and the process environment\<close>

text \<open>
  The payload of a JSON web token. User tokens carry no \<^verbatim>\<open>admin\<close> field; deserialising
  \<^verbatim>\<open>Claims\<close> ignores it and deserialising \<^verbatim>\<open>AdminClaims\<close> requires it.
\<close>

record jwt_payload =
  sub :: string
  exp :: u64
  admin :: "bool option"

record ('v, 'c) env =
  now :: u128
  utc_seconds :: int
  var_cluster_secret :: "string option"
  jwt_secret :: string
  var_admin_password :: "string option"
  var_dyna_mode :: "string option"
  current_addr :: string
  default_hash :: "string \<Rightarrow> u64"
  sha256_hex :: "string \<Rightarrow> string"
  json_str :: "string \<Rightarrow> 'v"
  as_str :: "'v \<Rightarrow> string option"
  jwt_encode :: "string \<Rightarrow> jwt_payload \<Rightarrow> string option"
  jwt_verify :: "int \<Rightarrow> string \<Rightarrow> string \<Rightarrow> jwt_payload option"
  iter_order :: hash_order
  bc :: "('v, 'c) broadcast"

text \<open>
  \<^verbatim>\<open>env::var("CLUSTER_SECRET")\<close> with the two defaults the sources use, and the JWT secret: the
  process leaves \<^verbatim>\<open>main\<close> at once when it is not set, so a serving node has one.
\<close>

definition cluster_secret :: "('v, 'c) env \<Rightarrow> string" where
  "cluster_secret E = (case var_cluster_secret E of Some s \<Rightarrow> s | None \<Rightarrow> ''default_secret'')"

definition cluster_secret_or_empty :: "('v, 'c) env \<Rightarrow> string" where
  "cluster_secret_or_empty E = (case var_cluster_secret E of Some s \<Rightarrow> s | None \<Rightarrow> '''')"

text \<open>\<^verbatim>\<open>decode::<Claims>\<close> and \<^verbatim>\<open>decode::<AdminClaims>\<close>.\<close>

definition decode_claims :: "('v, 'c) env \<Rightarrow> string \<Rightarrow> string option" where
  "decode_claims E token = map_option sub (jwt_verify E (utc_seconds E) (jwt_secret E) token)"

definition decode_admin_claims :: "('v, 'c) env \<Rightarrow> string \<Rightarrow> bool option" where
  "decode_admin_claims E token =
     (case jwt_verify E (utc_seconds E) (jwt_secret E) token of
        None \<Rightarrow> None
      | Some p \<Rightarrow> admin p)"

definition bearer_token :: "string \<Rightarrow> string option" where
  "bearer_token auth_str =
     (if starts_with ''Bearer '' auth_str
      then Some (trim (trim_start_matches ''Bearer '' auth_str)) else None)"

definition extract_user_from_token ::
    "('v, 'c) env \<Rightarrow> http_request \<Rightarrow> 'v response + string" where
  "extract_user_from_token E req =
     (case fmlookup req ''Authorization'' of
        None \<Rightarrow> Inl (respond 401 (ErrorJson ''Missing Authorization header''))
      | Some h \<Rightarrow>
          (case to_str h of
             None \<Rightarrow> Inl (respond 401 (ErrorJson ''Invalid authorization header''))
           | Some auth_str \<Rightarrow>
               (case bearer_token auth_str of
                  None \<Rightarrow> Inl (respond 401 (ErrorJson ''Invalid authorization header format''))
                | Some token \<Rightarrow>
                    (case decode_claims E token of
                       None \<Rightarrow> Inl (respond 401 (ErrorJson ''Invalid JWT token''))
                     | Some user \<Rightarrow> Inr user))))"

definition validate_admin_token :: "('v, 'c) env \<Rightarrow> http_request \<Rightarrow> bool" where
  "validate_admin_token E req =
     (case fmlookup req ''Authorization'' of
        None \<Rightarrow> False
      | Some h \<Rightarrow>
          (case to_str h of
             None \<Rightarrow> False
           | Some auth_str \<Rightarrow>
               (case bearer_token auth_str of
                  None \<Rightarrow> False
                | Some token \<Rightarrow>
                    (case decode_admin_claims E token of
                       None \<Rightarrow> False
                     | Some a \<Rightarrow> a))))"

text \<open>
  The header test of the handlers that serve other nodes: present, and equal to the cluster
  secret (unreadable bytes count as the empty string).
\<close>

definition internal_request :: "('v, 'c) env \<Rightarrow> http_request \<Rightarrow> bool" where
  "internal_request E req =
     (case fmlookup req ''X-Internal-Request'' of
        None \<Rightarrow> False
      | Some h \<Rightarrow> (case to_str h of Some s \<Rightarrow> s | None \<Rightarrow> '''') = cluster_secret E)"

lemma extract_user_Inl_code: "extract_user_from_token E req = Inl r \<Longrightarrow> code r = 401"
  by (auto simp: extract_user_from_token_def split: option.splits)

section \<open>The state of a node\<close>

text \<open>
  \<^verbatim>\<open>AppState\<close>, \<^verbatim>\<open>ClusterData\<close> and \<^verbatim>\<open>SubscriptionManager\<close> are shared by all handlers of a
  process.
\<close>

type_synonym 'v table = "(string, 'v versioned_value) fmap"
type_synonym 'v kv_store = "(string, 'v table) fmap"

record ('v, 'c) node =
  store :: "'v kv_store"
  nodes :: membership
  channels :: "'c channel_map"

type_synonym ('v, 'c) handler = "('v, 'c) node \<Rightarrow> 'v response \<times> ('v, 'c) node \<times> 'v outgoing list"

definition notify_node ::
    "('v, 'c) env \<Rightarrow> string \<Rightarrow> string \<Rightarrow> 'v key_event \<Rightarrow> ('v, 'c) node \<Rightarrow> ('v, 'c) node" where
  "notify_node E table key event nd = nd\<lparr>channels := notify (bc E) table key event (channels nd)\<rparr>"

text \<open>The replication targets of a key: every active node, in ring order.\<close>

definition replication_targets :: "('v, 'c) env \<Rightarrow> string \<Rightarrow> ('v, 'c) node \<Rightarrow> string list" where
  "replication_targets E key nd =
     (let active = get_active_nodes (iter_order E) (nodes nd)
      in get_replication_nodes (default_hash E) key active (length active))"

lemma notify_node_simps [simp]:
  "store (notify_node E t k e nd) = store nd"
  "nodes (notify_node E t k e nd) = nodes nd"
  "channels (notify_node E t k e nd) = notify (bc E) t k e (channels nd)"
  by (simp_all add: notify_node_def)

lemma set_replication_targets: "set (replication_targets E key nd) \<subseteq>
    {n. \<exists>info. fmlookup (nodes nd) n = Some info \<and> status info = Active}"
proof -
  let ?active = "get_active_nodes (iter_order E) (nodes nd)"
  have "set (replication_targets E key nd) \<subseteq> set ?active"
    by (simp add: replication_targets_def Let_def get_replication_nodes_all ring_walk_subset)
  then show ?thesis
    by (simp add: set_get_active_nodes)
qed

lemma replication_targets_full:
  assumes "collision_free (default_hash E) (get_active_nodes (iter_order E) (nodes nd))"
  shows "set (replication_targets E key nd) =
    {n. \<exists>info. fmlookup (nodes nd) n = Some info \<and> status info = Active}"
  using assms
  by (simp add: replication_targets_def Let_def get_replication_nodes_all set_ring_walk_full
      set_get_active_nodes)

section \<open>A sample environment\<close>

text \<open>
  Concrete instances of the parameters, on which the theorems are exercised: a string
  hash, tokens that spell out their payload, and the bounded-queue channels.
\<close>

definition sample_hash :: "string \<Rightarrow> u64" where
  "sample_hash s = (case s of _ # c # _ \<Rightarrow> of_nat (of_char c) | _ \<Rightarrow> 0)"

definition sample_jwt_encode :: "string \<Rightarrow> jwt_payload \<Rightarrow> string option" where
  "sample_jwt_encode secret p =
     (let token = (case admin p of None \<Rightarrow> CHR ''U'' | Some True \<Rightarrow> CHR ''A'' | Some False \<Rightarrow> CHR ''F'') # sub p
      in if exp p = 90000 \<and> bearer_token (''Bearer '' @ token) = Some token then Some token else None)"

fun sample_jwt_verify :: "int \<Rightarrow> string \<Rightarrow> string \<Rightarrow> jwt_payload option" where
  "sample_jwt_verify t secret [] = None"
| "sample_jwt_verify t secret (c # s) =
     (if t > 90000 then None
      else if c = CHR ''U'' then Some \<lparr>sub = s, exp = 90000, admin = None\<rparr>
      else if c = CHR ''A'' then Some \<lparr>sub = s, exp = 90000, admin = Some True\<rparr>
      else if c = CHR ''F'' then Some \<lparr>sub = s, exp = 90000, admin = Some False\<rparr>
      else None)"

definition sample_env :: "string \<Rightarrow> u128 \<Rightarrow> (string, string queue_channel) env" where
  "sample_env addr t =
     \<lparr>now = t, utc_seconds = 3600, var_cluster_secret = Some ''cs'', jwt_secret = ''123'',
      var_admin_password = Some ''pw'', var_dyna_mode = None, current_addr = addr,
      default_hash = sample_hash, sha256_hex = (\<lambda>s. ''h'' @ s), json_str = (\<lambda>s. s), as_str = Some,
      jwt_encode = sample_jwt_encode, jwt_verify = sample_jwt_verify,
      iter_order = sorted_order, bc = qc_ops\<rparr>"

definition bearer :: "string \<Rightarrow> http_request" where
  "bearer token = fmupd ''Authorization'' (HText (''Bearer '' @ token)) fmempty"

definition internal_header :: "string \<Rightarrow> http_request" where
  "internal_header secret = fmupd ''X-Internal-Request'' (HText secret) fmempty"

lemma internal_header_simps [simp]:
  "internal_request E (internal_header s) \<longleftrightarrow> s = cluster_secret E"
  by (simp add: internal_request_def internal_header_def)

definition sample_node :: "(string, string queue_channel) node" where
  "sample_node =
     \<lparr>store = fmupd ''t'' (fmupd ''k'' (vv_new 5 (fmupd ''f'' ''x'' fmempty) ''alice'' ''n1'') fmempty) fmempty,
      nodes = fmupd ''n2'' \<lparr>status = Active, last_heartbeat = 1\<rparr>
        (fmupd ''n1'' \<lparr>status = Active, last_heartbeat = 1\<rparr> fmempty),
      channels = fmempty\<rparr>"

end
