(* ===== verification/Engine.thy ===== *)
theory Engine
  imports Http
begin

text \<open>
  The storage engine of \<^verbatim>\<open>storage/engine.rs\<close>: the two-level in-memory store and the handlers
  for reading, writing, patching and deleting a key, the internal write that replicas receive,
  the table queries and the cluster join. A handler maps the node state to the response, the
  new state and the requests its background tasks send.
\<close>

section \<open>The store\<close>

text \<open>
  \<^verbatim>\<open>DashMap<String, DashMap<String, VersionedValue>>\<close>: a lookup through both levels,
  \<^verbatim>\<open>entry(table).or_default()\<close>, which creates an absent table, insertion and removal.
\<close>

definition store_get :: "string \<Rightarrow> string \<Rightarrow> 'v kv_store \<Rightarrow> 'v versioned_value option" where
  "store_get t k s = (case fmlookup s t of None \<Rightarrow> None | Some table \<Rightarrow> fmlookup table k)"

definition touch_table :: "string \<Rightarrow> 'v kv_store \<Rightarrow> 'v kv_store" where
  "touch_table t s = (case fmlookup s t of None \<Rightarrow> fmupd t fmempty s | Some _ \<Rightarrow> s)"

definition store_insert ::
    "string \<Rightarrow> string \<Rightarrow> 'v versioned_value \<Rightarrow> 'v kv_store \<Rightarrow> 'v kv_store" where
  "store_insert t k v s = fmupd t (fmupd k v (lookup_or fmempty s t)) s"

definition store_remove :: "string \<Rightarrow> string \<Rightarrow> 'v kv_store \<Rightarrow> 'v kv_store" where
  "store_remove t k s = (case fmlookup s t of None \<Rightarrow> s | Some table \<Rightarrow> fmupd t (fmdrop k table) s)"

text \<open>The contract the handlers rely on.\<close>

locale record_store =
  fixes get :: "string \<Rightarrow> string \<Rightarrow> 's \<Rightarrow> 'r option"
    and touch :: "string \<Rightarrow> 's \<Rightarrow> 's"
    and insert :: "string \<Rightarrow> string \<Rightarrow> 'r \<Rightarrow> 's \<Rightarrow> 's"
    and remove :: "string \<Rightarrow> string \<Rightarrow> 's \<Rightarrow> 's"
    and tables :: "'s \<Rightarrow> string set"
  assumes get_touch: "get t k (touch t' s) = get t k s"
    and get_insert: "get t k (insert t' k' v s) = (if t = t' \<and> k = k' then Some v else get t k s)"
    and get_remove: "get t k (remove t' k' s) = (if t = t' \<and> k = k' then None else get t k s)"
    and tables_touch: "tables (touch t s) = Set.insert t (tables s)"
    and tables_insert: "tables (insert t k v s) = Set.insert t (tables s)"
    and tables_remove: "tables (remove t k s) = tables s"
begin

text \<open>A sequence of writes and removals, and what a key holds afterwards: the last one wins.\<close>

fun run_edits :: "(string \<times> string \<times> 'r option) list \<Rightarrow> 's \<Rightarrow> 's" where
  "run_edits [] s = s"
| "run_edits ((t, k, None) # es) s = run_edits es (remove t k s)"
| "run_edits ((t, k, Some v) # es) s = run_edits es (insert t k v s)"

lemma run_edits_append: "run_edits (es @ es') s = run_edits es' (run_edits es s)"
  by (induction es s rule: run_edits.induct) auto

lemma get_run_edits_other:
  "(\<And>e. (t, k, e) \<notin> set es) \<Longrightarrow> get t k (run_edits es s) = get t k s"
proof (induction es s rule: run_edits.induct)
  case (2 t' k' es s)
  then have "(t, k) \<noteq> (t', k')" and "\<And>e. (t, k, e) \<notin> set es"
    by auto
  with 2 show ?case
    by (auto simp: get_remove)
next
  case (3 t' k' v es s)
  then have "(t, k) \<noteq> (t', k')" and "\<And>e. (t, k, e) \<notin> set es"
    by auto
  with 3 show ?case
    by (auto simp: get_insert)
qed simp

lemma get_run_edits_last:
  assumes "\<And>e. (t, k, e) \<notin> set es'"
  shows "get t k (run_edits (es @ (t, k, r) # es') s) = r"
  by (cases r) (simp_all add: run_edits_append get_run_edits_other [OF assms] get_insert get_remove)

end

lemma store_get_touch: "store_get t k (touch_table t' s) = store_get t k s"
  by (auto simp: store_get_def touch_table_def split: option.splits)

lemma store_get_insert:
  "store_get t k (store_insert t' k' v s) = (if t = t' \<and> k = k' then Some v else store_get t k s)"
  by (auto simp: store_get_def store_insert_def lookup_or_def split: option.splits)

lemma store_get_remove:
  "store_get t k (store_remove t' k' s) = (if t = t' \<and> k = k' then None else store_get t k s)"
  by (auto simp: store_get_def store_remove_def split: option.splits)

lemma fmdom_touch: "fset (fmdom (touch_table t s)) = Set.insert t (fset (fmdom s))"
  by (auto simp: touch_table_def fmlookup_dom_iff split: option.splits)

lemma fmdom_remove: "fmdom (store_remove t k s) = fmdom s"
  by (auto simp: store_remove_def fmlookup_dom_iff split: option.splits)

lemma fmdom_insert: "fset (fmdom (store_insert t k v s)) = Set.insert t (fset (fmdom s))"
  by (simp add: store_insert_def)

lemmas store_get_simps [store_simps] = store_get_touch store_get_insert store_get_remove

interpretation kv: record_store store_get touch_table store_insert store_remove "\<lambda>s. fset (fmdom s)"
  by unfold_locales (simp_all add: store_simps fmdom_touch fmdom_remove fmdom_insert)

section \<open>Reading a key\<close>

text \<open>
  What a request to another replica brought: a parsed answer, an unparsable body, an error
  status, or no answer.
\<close>

datatype 'v fetch =
    FetchOk "'v versioned_value option"
  | FetchBadJson
  | FetchStatus nat
  | FetchFailed

text \<open>One entry of \<^verbatim>\<open>join_all\<close>: the local lookup or the remote fetch, errors as \<^const>\<open>None\<close>.\<close>

definition read_replica ::
    "('v, 'c) env \<Rightarrow> (string \<Rightarrow> 'v fetch) \<Rightarrow> string \<Rightarrow> string \<Rightarrow> 'v kv_store \<Rightarrow> string \<Rightarrow>
     (string \<times> 'v versioned_value option) option" where
  "read_replica E remote t k s tgt =
     (if tgt = current_addr E then Some (tgt, store_get t k s)
      else case remote tgt of FetchOk v \<Rightarrow> Some (tgt, v) | _ \<Rightarrow> None)"

fun collect_responses ::
    "(string \<times> 'v versioned_value option) option list \<Rightarrow>
     'v versioned_value list \<times> (string \<times> 'v versioned_value option) list" where
  "collect_responses [] = ([], [])"
| "collect_responses (res # rest) =
     (let (valid, all) = collect_responses rest in
      case res of
        Some (addr, Some val) \<Rightarrow> (val # valid, (addr, Some val) # all)
      | Some (addr, None) \<Rightarrow> (valid, (addr, None) # all)
      | None \<Rightarrow> (valid, all))"

definition needs_repair :: "'v versioned_value \<Rightarrow> 'v versioned_value option \<Rightarrow> bool" where
  "needs_repair latest opt_v =
     (case opt_v of
        None \<Rightarrow> True
      | Some v \<Rightarrow> \<not> dominates v latest \<and> timestamp v < timestamp latest)"

definition read_repairs ::
    "('v, 'c) env \<Rightarrow> string \<Rightarrow> string \<Rightarrow> 'v versioned_value \<Rightarrow>
     (string \<times> 'v versioned_value option) list \<Rightarrow> 'v outgoing list" where
  "read_repairs E t k latest responses =
     map (\<lambda>(addr, _). PutInternal addr t k latest (cluster_secret E) 1)
       (filter (\<lambda>(_, opt_v). needs_repair latest opt_v) responses)"

definition get_value ::
    "('v, 'c) env \<Rightarrow> (string \<Rightarrow> 'v fetch) \<Rightarrow> http_request \<Rightarrow> string \<times> string \<Rightarrow> ('v, 'c) handler" where
  "get_value E remote req path nd =
     (let (table_name, key_val) = path in
      if internal_request E req then
        (respond 200 (MaybeRecordJson (store_get table_name key_val (store nd))), nd, [])
      else
        (case extract_user_from_token E req of
           Inl _ \<Rightarrow> (respond 401 (Text ''You are not owning this record''), nd, [])
         | Inr user \<Rightarrow>
             (let targets = replication_targets E key_val nd;
                  results = map (read_replica E remote table_name key_val (store nd)) targets;
                  (valid, responses) = collect_responses results
              in case max_by cmp_versions valid of
                   None \<Rightarrow> (respond 404 (ErrorJson ''Key not found on any replica''), nd, [])
                 | Some latest \<Rightarrow>
                     (let repairs = read_repairs E table_name key_val latest responses in
                      if owner latest \<noteq> user
                      then (respond 401 (ErrorJson ''Not authorized to view record''), nd, repairs)
                      else (respond 200 (RecordJson latest), nd, repairs)))))"

section \<open>Writing a key\<close>

text \<open>
  The end of a successful local write: the stored version, the notification, and the
  replication of the full record with three attempts per target.
\<close>

definition replicate_put ::
    "('v, 'c) env \<Rightarrow> string \<Rightarrow> string \<Rightarrow> 'v versioned_value \<Rightarrow> string list \<Rightarrow> 'v outgoing list" where
  "replicate_put E t k v targets = map (\<lambda>tgt. PutInternal tgt t k v (cluster_secret E) 3) targets"

definition commit_write ::
    "('v, 'c) env \<Rightarrow> string \<Rightarrow> string \<Rightarrow> 'v versioned_value \<Rightarrow> ('v, 'c) node \<Rightarrow> ('v, 'c) node" where
  "commit_write E t k v nd =
     notify_node E t k (Updated v) (nd\<lparr>store := store_insert t k v (store nd)\<rparr>)"

definition patch_value ::
    "('v, 'c) env \<Rightarrow> http_request \<Rightarrow> string \<times> string \<Rightarrow> (string, 'v) fmap \<Rightarrow> ('v, 'c) handler" where
  "patch_value E req path updates nd =
     (let (table_name, key_val) = path in
      case extract_user_from_token E req of
        Inl resp \<Rightarrow> (resp, nd, [])
      | Inr user \<Rightarrow>
          (let nd1 = nd\<lparr>store := touch_table table_name (store nd)\<rparr> in
           case store_get table_name key_val (store nd1) of
             None \<Rightarrow> (respond 404 (ErrorJson ''Record not found''), nd1, [])
           | Some existing \<Rightarrow>
               if owner existing \<noteq> user
               then (respond 401 (ErrorJson ''Not authorized to update this record''), nd1, [])
               else
                 (let new_value = vv_patch (now E) (iter_order E) updates (current_addr E) existing;
                      nd2 = commit_write E table_name key_val new_value nd1;
                      targets = filter (\<lambda>tgt. tgt \<noteq> current_addr E) (replication_targets E key_val nd2)
                  in (respond 200 (RecordJson new_value), nd2,
                      replicate_put E table_name key_val new_value targets))))"

definition put_value ::
    "('v, 'c) env \<Rightarrow> http_request \<Rightarrow> string \<times> string \<Rightarrow> (string, 'v) fmap \<Rightarrow> ('v, 'c) handler" where
  "put_value E req path val nd =
     (let (table_name, key_val) = path in
      case extract_user_from_token E req of
        Inl resp \<Rightarrow> (resp, nd, [])
      | Inr user \<Rightarrow>
          (let nd1 = nd\<lparr>store := touch_table table_name (store nd)\<rparr> in
           case (case store_get table_name key_val (store nd1) of
                   Some existing \<Rightarrow>
                     if owner existing \<noteq> user
                     then Inl (respond 401 (ErrorJson ''Not authorized to update this record''))
                     else Inr (vv_update (now E) val (current_addr E) existing)
                 | None \<Rightarrow> Inr (vv_new (now E) val user (current_addr E))) of
             Inl resp \<Rightarrow> (resp, nd1, [])
           | Inr new_value \<Rightarrow>
               (let nd2 = commit_write E table_name key_val new_value nd1;
                    targets = replication_targets E key_val nd2
                in (respond 201 (RecordJson new_value), nd2,
                    replicate_put E table_name key_val new_value targets))))"

definition provided_secret_of :: "http_request \<Rightarrow> string" where
  "provided_secret_of req =
     (case Option.bind (fmlookup req ''X-Internal-Request'') to_str of Some s \<Rightarrow> s | None \<Rightarrow> '''')"

definition put_value_internal ::
    "('v, 'c) env \<Rightarrow> http_request \<Rightarrow> string \<times> string \<Rightarrow> 'v versioned_value \<Rightarrow> ('v, 'c) handler" where
  "put_value_internal E req path incoming nd =
     (let (table_name, key_val) = path;
          provided_secret = provided_secret_of req
      in if provided_secret \<noteq> cluster_secret E then (respond 401 NoBody, nd, [])
         else
           (let s1 = touch_table table_name (store nd);
                cached = (case store_get table_name key_val s1 of
                            Some existing \<Rightarrow> merge_version incoming existing
                          | None \<Rightarrow> incoming)
            in (respond 201 (RecordJson cached),
                commit_write E table_name key_val cached (nd\<lparr>store := s1\<rparr>), [])))"

section \<open>Deleting a key\<close>

text \<open>
  The handler looks at the store twice: once to check the owner, and once, after the lock was released, to
  remove the record. \<open>delete_check\<close> is the first part, an error response or
  \<^const>\<open>None\<close>; \<open>delete_removal\<close> is the second, which does not look at the owner again.
\<close>

definition delete_check ::
    "('v, 'c) env \<Rightarrow> http_request \<Rightarrow> string \<times> string \<Rightarrow> ('v, 'c) node \<Rightarrow> 'v response option" where
  "delete_check E req path nd =
     (let (table_name, key_val) = path in
      case extract_user_from_token E req of
        Inl err_resp \<Rightarrow> Some err_resp
      | Inr user \<Rightarrow>
          (let authorized = (case store_get table_name key_val (store nd) of
                               Some v \<Rightarrow> owner v = user
                             | None \<Rightarrow> False)
           in if \<not> authorized then
                Some (respond 401
                  (ErrorJson ''Not authorized to delete this record or record not found''))
              else None))"

definition delete_removal :: "('v, 'c) env \<Rightarrow> string \<times> string \<Rightarrow> ('v, 'c) handler" where
  "delete_removal E path nd =
     (let (table_name, key_val) = path;
          local_status =
            (case fmlookup (store nd) table_name of
               Some table \<Rightarrow>
                 if fmlookup table key_val \<noteq> None then ''Deleted locally''
                 else ''Key not found locally''
             | None \<Rightarrow> ''Table not found locally'');
          nd1 = notify_node E table_name key_val Deleted
                  (nd\<lparr>store := store_remove table_name key_val (store nd)\<rparr>);
          targets = filter (\<lambda>tgt. tgt \<noteq> current_addr E) (replication_targets E key_val nd1)
      in (respond 200 (MessageJson local_status), nd1,
          map (\<lambda>tgt. DeleteKey tgt table_name key_val (cluster_secret E) 3) targets))"

text \<open>The handler when nothing happens between the two parts.\<close>

definition delete_value ::
    "('v, 'c) env \<Rightarrow> http_request \<Rightarrow> string \<times> string \<Rightarrow> ('v, 'c) handler" where
  "delete_value E req path nd =
     (let (table_name, key_val) = path in
      if internal_request E req then
        (respond 200 (MessageJson ''Deleted''),
         notify_node E table_name key_val Deleted
           (nd\<lparr>store := store_remove table_name key_val (store nd)\<rparr>), [])
      else
        (case delete_check E req path nd of
           Some err_resp \<Rightarrow> (err_resp, nd, [])
         | None \<Rightarrow> delete_removal E path nd))"

lemmas delete_value_parts = delete_value_def delete_check_def delete_removal_def

section \<open>Table queries\<close>

definition get_table_store :: "string \<Rightarrow> ('v, 'c) node \<Rightarrow> 'v response" where
  "get_table_store table_name nd =
     (case fmlookup (store nd) table_name of
        Some table_db \<Rightarrow> respond 200 (RecordsJson table_db)
      | None \<Rightarrow> respond 404 (ErrorJson ''Table not found''))"

definition get_all_keys :: "('v, 'c) env \<Rightarrow> string \<Rightarrow> ('v, 'c) node \<Rightarrow> 'v response" where
  "get_all_keys E table_name nd =
     (case fmlookup (store nd) table_name of
        Some table_db \<Rightarrow> respond 200 (KeysJson (map fst (iter_map (iter_order E) table_db)))
      | None \<Rightarrow> respond 404 (ErrorJson ''Table not found''))"

fun collect_keys :: "'v table \<Rightarrow> string list \<Rightarrow> 'v table \<Rightarrow> 'v table" where
  "collect_keys table_data [] result = result"
| "collect_keys table_data (key # keys) result =
     (case fmlookup table_data key of
        Some v \<Rightarrow> collect_keys table_data keys (fmupd key v result)
      | None \<Rightarrow> collect_keys table_data keys result)"

definition get_multiple_keys :: "string \<Rightarrow> string list \<Rightarrow> ('v, 'c) node \<Rightarrow> 'v response" where
  "get_multiple_keys table_name requested_keys nd =
     (case fmlookup (store nd) table_name of
        Some table_data \<Rightarrow> respond 200 (RecordsJson (collect_keys table_data requested_keys fmempty))
      | None \<Rightarrow> respond 404 (ErrorJson ''Table not found''))"

definition get_global_store :: "('v, 'c) env \<Rightarrow> http_request \<Rightarrow> ('v, 'c) node \<Rightarrow> 'v response" where
  "get_global_store E req nd =
     (case fmlookup req ''x-api-key'' of
        Some header_value \<Rightarrow>
          (case to_str header_value of
             Some api_key \<Rightarrow>
               if api_key \<noteq> cluster_secret E
               then respond 401 (Text ''Invalid API key provided'')
               else respond 200 (StoreJson (store nd))
           | None \<Rightarrow> respond 400 (Text ''Malformed API key header''))
      | None \<Rightarrow> respond 401 (Text ''Missing API key''))"

section \<open>Joining the cluster\<close>

text \<open>
  \<^verbatim>\<open>join_cluster\<close> up to its background task: the boolean says whether a permit was free, and
  the second result whether the delayed gossip was scheduled.
\<close>

definition join_cluster ::
    "('v, 'c) env \<Rightarrow> bool \<Rightarrow> string \<Rightarrow> string \<Rightarrow> ('v, 'c) node \<Rightarrow>
     'v response \<times> ('v, 'c) node \<times> bool" where
  "join_cluster E permit_free new_node secret nd =
     (if secret \<noteq> cluster_secret E then (respond 401 (Text ''Invalid cluster secret''), nd, False)
      else if fmlookup (nodes nd) new_node = None then
        (let nodes' = fmupd new_node \<lparr>status = Active, last_heartbeat = now E\<rparr> (nodes nd)
         in (respond 200 (NodesJson nodes'), nd\<lparr>nodes := nodes'\<rparr>, permit_free))
      else (respond 200 (NodesJson (nodes nd)), nd, False))"

section \<open>Lemmas on the handlers\<close>

lemma commit_write_simps [simp]:
  "store (commit_write E t k v nd) = store_insert t k v (store nd)"
  "nodes (commit_write E t k v nd) = nodes nd"
  "channels (commit_write E t k v nd) = notify (bc E) t k (Updated v) (channels nd)"
  by (simp_all add: commit_write_def)

lemma replication_targets_nodes:
  "nodes nd = nodes nd' \<Longrightarrow> replication_targets E k nd = replication_targets E k nd'"
  by (simp add: replication_targets_def)

text \<open>What each handler does to one cell of the store.\<close>

definition put_cell ::
    "('v, 'c) env \<Rightarrow> string \<Rightarrow> (string, 'v) fmap \<Rightarrow> 'v versioned_value option \<Rightarrow>
     'v versioned_value option" where
  "put_cell E user val cell =
     (case cell of
        None \<Rightarrow> Some (vv_new (now E) val user (current_addr E))
      | Some v \<Rightarrow> Some (if owner v = user then vv_update (now E) val (current_addr E) v else v))"

definition patch_cell ::
    "('v, 'c) env \<Rightarrow> string \<Rightarrow> (string, 'v) fmap \<Rightarrow> 'v versioned_value option \<Rightarrow>
     'v versioned_value option" where
  "patch_cell E user upd cell =
     map_option (\<lambda>v. if owner v = user
       then vv_patch (now E) (iter_order E) upd (current_addr E) v else v) cell"

definition delete_cell ::
    "string \<Rightarrow> 'v versioned_value option \<Rightarrow> 'v versioned_value option" where
  "delete_cell user cell =
     (case cell of None \<Rightarrow> None | Some v \<Rightarrow> if owner v = user then None else Some v)"

lemmas cell_defs = put_cell_def patch_cell_def delete_cell_def merge_cell_def

lemma put_value_store:
  assumes "put_value E req (t, k) val nd = (resp, nd', out)"
  shows "store_get t' k' (store nd') =
    (case extract_user_from_token E req of
       Inl _ \<Rightarrow> store_get t' k' (store nd)
     | Inr user \<Rightarrow> if t' = t \<and> k' = k then put_cell E user val (store_get t k (store nd))
                    else store_get t' k' (store nd))"
  using assms
  by (auto simp: put_value_def Let_def store_simps put_cell_def split: sum.splits option.splits if_splits)

lemma patch_value_store:
  assumes "patch_value E req (t, k) upd nd = (resp, nd', out)"
  shows "store_get t' k' (store nd') =
    (case extract_user_from_token E req of
       Inl _ \<Rightarrow> store_get t' k' (store nd)
     | Inr user \<Rightarrow> if t' = t \<and> k' = k then patch_cell E user upd (store_get t k (store nd))
                    else store_get t' k' (store nd))"
  using assms
  by (auto simp: patch_value_def Let_def store_simps patch_cell_def split: sum.splits option.splits if_splits)

lemma delete_value_store:
  assumes "delete_value E req (t, k) nd = (resp, nd', out)"
  shows "store_get t' k' (store nd') =
    (if internal_request E req then if t' = t \<and> k' = k then None else store_get t' k' (store nd)
     else case extract_user_from_token E req of
       Inl _ \<Rightarrow> store_get t' k' (store nd)
     | Inr user \<Rightarrow> if t' = t \<and> k' = k then delete_cell user (store_get t k (store nd))
                    else store_get t' k' (store nd))"
  using assms
  by (auto simp: delete_value_parts Let_def store_simps delete_cell_def split: sum.splits option.splits if_splits)

lemma put_value_internal_store:
  assumes "put_value_internal E req (t, k) v nd = (resp, nd', out)"
  shows "store_get t' k' (store nd') =
    (if provided_secret_of req = cluster_secret E \<and> t' = t \<and> k' = k
     then merge_cell (store_get t k (store nd)) v else store_get t' k' (store nd))"
  using assms
  by (auto simp: put_value_internal_def Let_def store_simps merge_cell_def
      split: option.splits if_splits)

lemma get_value_pure: "fst (snd (get_value E remote req path nd)) = nd"
  by (auto simp: get_value_def Let_def split: prod.splits sum.splits option.splits)

section \<open>Properties: authentication and ownership\<close>

text \<open>
  Only the owner changes a record. Whenever a client's PUT, PATCH or DELETE leaves some
  record of the store different from what it was, the request addressed that very record and
  carried a token for its owner.
\<close>

theorem only_owner_changes_record:
  assumes "store_get t' k' (store nd) = Some v"
    and "put_value E req (t, k) val nd = (resp, nd', out) \<or>
         patch_value E req (t, k) val nd = (resp, nd', out) \<or>
         \<not> internal_request E req \<and> delete_value E req (t, k) nd = (resp, nd', out)"
    and "store_get t' k' (store nd') \<noteq> Some v"
  shows "t' = t \<and> k' = k \<and> extract_user_from_token E req = Inr (owner v)"
  using assms
  by (auto simp: put_value_store patch_value_store delete_value_store cell_defs
      split: sum.splits if_splits option.splits)

theorem only_owner_changes_record_witness:
  "extract_user_from_token (sample_env ''n1'' 9) (bearer ''Ualice'') =
     Inr (owner (the (store_get ''t'' ''k'' (store sample_node))))"
proof -
  let ?E = "sample_env ''n1'' 9" and ?req = "bearer ''Ualice''"
  let ?v = "the (store_get ''t'' ''k'' (store sample_node))"
  obtain resp nd' out where put: "put_value ?E ?req (''t'', ''k'') fmempty sample_node = (resp, nd', out)"
    by (metis prod_cases3)
  have v: "store_get ''t'' ''k'' (store sample_node) = Some ?v"
    by code_simp
  have user: "extract_user_from_token ?E ?req = Inr ''alice''"
    by code_simp
  have "store_get ''t'' ''k'' (store nd') = put_cell ?E ''alice'' fmempty (Some ?v)"
    using put_value_store [OF put] user v by simp
  moreover have "put_cell ?E ''alice'' fmempty (Some ?v) \<noteq> Some ?v"
    by code_simp
  ultimately show ?thesis
    using only_owner_changes_record [OF v, of ?E ?req] put by metis
qed

text \<open>
  The owner of a record is fixed at creation. PUT and PATCH keep the owner of an
  existing record, and a PUT that creates a record makes the authenticated user its owner.
\<close>

theorem owner_fixed_at_creation:
  assumes "put_value E req (t, k) val nd = (resp, nd', out) \<or>
           patch_value E req (t, k) val nd = (resp, nd', out)"
    and "store_get t' k' (store nd') = Some v'"
  shows "case store_get t' k' (store nd) of
      Some v \<Rightarrow> owner v' = owner v
    | None \<Rightarrow> extract_user_from_token E req = Inr (owner v')"
  using assms
  by (auto simp: put_value_store patch_value_store cell_defs split: sum.splits if_splits option.splits)

theorem owner_fixed_at_creation_witness:
  "extract_user_from_token (sample_env ''n1'' 9) (bearer ''Ubob'') = Inr ''bob''"
proof -
  let ?E = "sample_env ''n1'' 9" and ?req = "bearer ''Ubob''"
  obtain resp nd' out where put: "put_value ?E ?req (''t'', ''new'') fmempty sample_node = (resp, nd', out)"
    by (metis prod_cases3)
  have before: "store_get ''t'' ''new'' (store sample_node) = None"
    by code_simp
  have "extract_user_from_token ?E ?req = Inr ''bob''"
    by code_simp
  then have "store_get ''t'' ''new'' (store nd') = Some (vv_new 9 fmempty ''bob'' ''n1'')"
    using put_value_store [OF put] before by (simp add: put_cell_def sample_env_def)
  from owner_fixed_at_creation [OF disjI1 [OF put] this] before show ?thesis
    by simp
qed

text \<open>
  A request without a valid token changes nothing. If the token check fails, PUT, PATCH
  and external DELETE answer with its 401 response, leave the whole node state as it is and
  send nothing, and GET answers 401 without reading any replica.
\<close>

theorem unauthenticated_rejected:
  assumes "extract_user_from_token E req = Inl r" and "\<not> internal_request E req"
  shows "put_value E req path val nd = (r, nd, []) \<and>
    patch_value E req path val nd = (r, nd, []) \<and>
    delete_value E req path nd = (r, nd, []) \<and>
    get_value E remote req path nd = (respond 401 (Text ''You are not owning this record''), nd, []) \<and>
    code r = 401"
  using assms extract_user_Inl_code [OF assms(1)]
  by (simp add: put_value_def patch_value_def delete_value_parts get_value_def split: prod.splits)

theorem unauthenticated_rejected_witness:
  "put_value (sample_env ''n1'' 9) (bearer ''x'') (''t'', ''k'') fmempty sample_node =
     (respond 401 (ErrorJson ''Invalid JWT token''), sample_node, [])"
proof -
  have "extract_user_from_token (sample_env ''n1'' 9) (bearer ''x'') =
      Inl (respond 401 (ErrorJson ''Invalid JWT token''))"
    and "\<not> internal_request (sample_env ''n1'' 9) (bearer ''x'')"
    by code_simp+
  from unauthenticated_rejected [OF this] show ?thesis
    by simp
qed

section \<open>Properties: the store as a family of registers\<close>

text \<open>
  C5: the client operations refine per-key register operations. Seen through lookups, PUT,
  PATCH and DELETE act on the addressed cell alone, by the abstract operations
  \<open>put_cell\<close>, \<open>patch_cell\<close> and \<open>delete_cell\<close> of the authenticated user.
\<close>

theorem client_writes_refine_cells:
  "store_get t' k' (store (fst (snd (put_value E req (t, k) val nd)))) =
     (case extract_user_from_token E req of
        Inr user \<Rightarrow> (if (t', k') = (t, k) then put_cell E user val else id) (store_get t' k' (store nd))
      | Inl _ \<Rightarrow> store_get t' k' (store nd)) \<and>
   store_get t' k' (store (fst (snd (patch_value E req (t, k) val nd)))) =
     (case extract_user_from_token E req of
        Inr user \<Rightarrow> (if (t', k') = (t, k) then patch_cell E user val else id) (store_get t' k' (store nd))
      | Inl _ \<Rightarrow> store_get t' k' (store nd)) \<and>
   store_get t' k' (store (fst (snd (delete_value E req (t, k) nd)))) =
     (if internal_request E req then if (t', k') = (t, k) then None else store_get t' k' (store nd)
      else case extract_user_from_token E req of
        Inr user \<Rightarrow> (if (t', k') = (t, k) then delete_cell user else id) (store_get t' k' (store nd))
      | Inl _ \<Rightarrow> store_get t' k' (store nd))"
proof -
  obtain r1 n1 o1 where p: "put_value E req (t, k) val nd = (r1, n1, o1)"
    by (metis prod_cases3)
  obtain r2 n2 o2 where q: "patch_value E req (t, k) val nd = (r2, n2, o2)"
    by (metis prod_cases3)
  obtain r3 n3 o3 where d: "delete_value E req (t, k) nd = (r3, n3, o3)"
    by (metis prod_cases3)
  show ?thesis
    by (auto simp: p q d put_value_store [OF p] patch_value_store [OF q] delete_value_store [OF d]
        split: sum.splits)
qed

text \<open>
  C40: DELETE can remove a record of somebody else. The owner check and the removal are two critical
  sections. If the owner sends DELETE twice and the second request, and then the PUT of another user for the
  now free key, are served between the two sections of the first, the first request removes the
  new record, which its own check would refuse, and tells all other replicas to do so,
  although the other user was answered 201.
\<close>

theorem delete_race_loses_record:
  assumes "store_get t k (store nd) = Some v" and "extract_user_from_token E\<^sub>1 req\<^sub>1 = Inr (owner v)"
    and "extract_user_from_token E\<^sub>2 req\<^sub>2 = Inr (owner v)" and "\<not> internal_request E\<^sub>2 req\<^sub>2"
    and "extract_user_from_token E\<^sub>3 req\<^sub>3 = Inr bob" and "bob \<noteq> owner v"
    and "put_value E\<^sub>3 req\<^sub>3 (t, k) val (fst (snd (delete_value E\<^sub>2 req\<^sub>2 (t, k) nd))) = (resp, nd', out)"
    and "delete_removal E\<^sub>1 (t, k) nd' = (resp', nd'', out')"
  shows "delete_check E\<^sub>1 req\<^sub>1 (t, k) nd = None \<and> code resp = 201 \<and>
    store_get t k (store nd') = Some (vv_new (now E\<^sub>3) val bob (current_addr E\<^sub>3)) \<and>
    delete_check E\<^sub>1 req\<^sub>1 (t, k) nd' \<noteq> None \<and> store_get t k (store nd'') = None \<and> code resp' = 200 \<and>
    (\<forall>q \<in> set (replication_targets E\<^sub>1 k nd'). q \<noteq> current_addr E\<^sub>1 \<longrightarrow>
       DeleteKey q t k (cluster_secret E\<^sub>1) 3 \<in> set out')"
proof -
  have "store_get t k (store (fst (snd (delete_value E\<^sub>2 req\<^sub>2 (t, k) nd)))) = None"
    using assms(1,3,4) by (simp add: delete_value_parts Let_def store_simps)
  with assms(5,7) have put: "code resp = 201"
    "store_get t k (store nd') = Some (vv_new (now E\<^sub>3) val bob (current_addr E\<^sub>3))"
    by (auto simp: put_value_def Let_def store_simps)
  have "replication_targets E\<^sub>1 k (notify_node E\<^sub>1 t k Deleted (nd'\<lparr>store := store_remove t k (store nd')\<rparr>)) =
      replication_targets E\<^sub>1 k nd'"
    by (rule replication_targets_nodes) simp
  with assms(8) have "store_get t k (store nd'') = None" "code resp' = 200"
    "out' = map (\<lambda>tgt. DeleteKey tgt t k (cluster_secret E\<^sub>1) 3)
       (filter (\<lambda>tgt. tgt \<noteq> current_addr E\<^sub>1) (replication_targets E\<^sub>1 k nd'))"
    by (auto simp: delete_removal_def Let_def store_simps)
  with put assms(1,2,6) show ?thesis
    by (auto simp: delete_check_def vv_new_def)
qed

theorem delete_race_loses_record_witness:
  "let nd' = fst (snd (put_value (sample_env ''n1'' 9) (bearer ''Ubob'') (''t'', ''k'') fmempty
       (fst (snd (delete_value (sample_env ''n1'' 8) (bearer ''Ualice'') (''t'', ''k'') sample_node)))))
   in store_get ''t'' ''k'' (store nd') = Some (vv_new 9 fmempty ''bob'' ''n1'') \<and>
      store_get ''t'' ''k'' (store (fst (snd (delete_removal (sample_env ''n1'' 7) (''t'', ''k'') nd')))) = None"
proof -
  have "store_get ''t'' ''k'' (store sample_node) = Some (vv_new 5 (fmupd ''f'' ''x'' fmempty) ''alice'' ''n1'')"
    and "extract_user_from_token (sample_env ''n1'' 7) (bearer ''Ualice'') =
      Inr (owner (vv_new 5 (fmupd ''f'' ''x'' fmempty) ''alice'' ''n1''))"
    and "extract_user_from_token (sample_env ''n1'' 8) (bearer ''Ualice'') =
      Inr (owner (vv_new 5 (fmupd ''f'' ''x'' fmempty) ''alice'' ''n1''))"
    and "\<not> internal_request (sample_env ''n1'' 8) (bearer ''Ualice'')"
    and "extract_user_from_token (sample_env ''n1'' 9) (bearer ''Ubob'') = Inr ''bob''"
    and "''bob'' \<noteq> owner (vv_new 5 (fmupd ''f'' ''x'' fmempty) ''alice'' ''n1'')"
    and "now (sample_env ''n1'' 9) = 9" and "current_addr (sample_env ''n1'' 9) = ''n1''"
    by code_simp+
  from delete_race_loses_record [OF this(1-6) triple_collapse triple_collapse] this(7,8) show ?thesis
    by (simp add: Let_def)
qed

end
