(* ===== verification/Reading.thy ===== *)
theory Reading
  imports Engine
begin

text \<open>
  The read path of \<^verbatim>\<open>get_value\<close>: which version a client is shown, to whom, and what the
  read-repair messages do.
\<close>

section \<open>The collected responses\<close>

definition replica_responses ::
    "('v, 'c) env \<Rightarrow> (string \<Rightarrow> 'v fetch) \<Rightarrow> string \<Rightarrow> string \<Rightarrow> ('v, 'c) node \<Rightarrow>
     (string \<times> 'v versioned_value option) list" where
  "replica_responses E remote t k nd =
     snd (collect_responses (map (read_replica E remote t k (store nd)) (replication_targets E k nd)))"

definition replica_versions ::
    "('v, 'c) env \<Rightarrow> (string \<Rightarrow> 'v fetch) \<Rightarrow> string \<Rightarrow> string \<Rightarrow> ('v, 'c) node \<Rightarrow>
     'v versioned_value list" where
  "replica_versions E remote t k nd =
     fst (collect_responses (map (read_replica E remote t k (store nd)) (replication_targets E k nd)))"

lemma set_collect_versions: "set (fst (collect_responses rs)) = {v. \<exists>a. Some (a, Some v) \<in> set rs}"
  by (induction rs rule: collect_responses.induct)
    (auto simp: split_def Let_def split: option.splits prod.splits)

lemma set_collect_responses: "set (snd (collect_responses rs)) = {p. Some p \<in> set rs}"
  by (induction rs rule: collect_responses.induct)
    (auto simp: split_def Let_def split: option.splits prod.splits)

lemma replica_versions_responses:
  "v \<in> set (replica_versions E remote t k nd) \<longleftrightarrow>
   (\<exists>a. (a, Some v) \<in> set (replica_responses E remote t k nd))"
  by (simp add: replica_versions_def replica_responses_def set_collect_versions set_collect_responses)

lemma read_replica_Some:
  "read_replica E remote t k s x = Some (a, r) \<longleftrightarrow>
     x = a \<and> (if a = current_addr E then r = store_get t k s else remote a = FetchOk r)"
  by (cases "remote x") (auto simp: read_replica_def)

lemma mem_replica_responses:
  "(a, r) \<in> set (replica_responses E remote t k nd) \<longleftrightarrow>
     a \<in> set (replication_targets E k nd) \<and>
     (if a = current_addr E then r = store_get t k (store nd) else remote a = FetchOk r)"
proof -
  have "(a, r) \<in> set (replica_responses E remote t k nd) \<longleftrightarrow>
      (\<exists>x \<in> set (replication_targets E k nd). read_replica E remote t k (store nd) x = Some (a, r))"
    by (auto simp: replica_responses_def set_collect_responses image_iff eq_commute)
  then show ?thesis
    by (auto simp: read_replica_Some)
qed

text \<open>The handler in terms of the collected responses.\<close>

lemma get_value_external:
  assumes "\<not> internal_request E req" and "extract_user_from_token E req = Inr user"
  shows "get_value E remote req (t, k) nd =
    (case max_by cmp_versions (replica_versions E remote t k nd) of
       None \<Rightarrow> (respond 404 (ErrorJson ''Key not found on any replica''), nd, [])
     | Some latest \<Rightarrow>
         (if owner latest = user then respond 200 (RecordJson latest)
          else respond 401 (ErrorJson ''Not authorized to view record''),
          nd, read_repairs E t k latest (replica_responses E remote t k nd)))"
  using assms
  by (simp add: get_value_def replica_versions_def replica_responses_def Let_def split_def
      split: option.splits)

text \<open>The messages of a read are repairs with one of the collected versions.\<close>

lemma get_value_repairs:
  assumes "x \<in> set (snd (snd (get_value E remote req (t, k) nd)))"
  shows "\<exists>a v. x = PutInternal a t k v (cluster_secret E) 1 \<and> v \<in> set (replica_versions E remote t k nd)"
proof (cases "internal_request E req")
  case False
  then obtain user where user: "extract_user_from_token E req = Inr user"
    using assms by (cases "extract_user_from_token E req") (auto simp: get_value_def)
  with assms False obtain latest where "max_by cmp_versions (replica_versions E remote t k nd) = Some latest"
    and "x \<in> set (read_repairs E t k latest (replica_responses E remote t k nd))"
    by (auto simp: get_value_external split: option.splits if_splits)
  then show ?thesis
    by (auto simp: read_repairs_def dest: max_by_mem)
qed (use assms in \<open>simp add: get_value_def\<close>)

section \<open>The maximum\<close>

lemma foldl_max_dominant:
  assumes "v \<in> set (x # xs)" and "\<forall>y \<in> set (x # xs). y \<noteq> v \<longrightarrow> supersedes v y"
  shows "foldl (max_by_step cmp_versions) x xs = v"
  using assms
proof (induction xs arbitrary: x)
  case (Cons y ys)
  let ?z = "max_by_step cmp_versions x y"
  have "?z = (if supersedes x y then x else y)"
    by (simp add: max_by_step_def)
  moreover have "?z = v" if "v = x \<or> v = y"
    using that Cons.prems(2) calculation supersedes_asym [of v] by (cases "x = y") auto
  ultimately have "v \<in> set (?z # ys)" and "\<forall>w \<in> set (?z # ys). w \<noteq> v \<longrightarrow> supersedes v w"
    using Cons.prems by auto
  with Cons.IH [of ?z] show ?case
    by simp
qed simp

lemma max_by_dominant:
  assumes "v \<in> set xs" and "\<forall>y \<in> set xs. y \<noteq> v \<longrightarrow> supersedes v y"
  shows "max_by cmp_versions xs = Some v"
  using assms by (cases xs) (simp_all add: foldl_max_dominant)

lemma max_by_merge:
  assumes "clock_synchronous (set xs)"
  shows "max_by cmp_versions xs = foldl merge_cell None xs"
proof (cases "xs = []")
  case False
  then obtain m where "foldl merge_cell None xs = Some m" and "lww.winner (set xs) m"
    using lww.receive_all_winner [OF assms] by blast
  then show ?thesis
    using max_by_dominant [of m xs] by (simp add: lww.winner_def)
qed simp

section \<open>Properties of reads\<close>

text \<open>
  Reads and replication resolve conflicts alike. On versions whose timestamps agree with
  their clocks, the maximum that a read selects from the collected versions, in whatever
  order the replicas answered, is the version a replica holds after merging all of them.
\<close>

theorem read_agrees_with_merge:
  assumes "clock_synchronous (set versions)" and "set merged = set versions"
  shows "max_by cmp_versions versions = foldl merge_cell None merged"
  using max_by_merge [OF assms(1)] lww.receive_all_converges [OF assms] by simp

theorem read_agrees_with_merge_witness:
  "max_by cmp_versions
      [vv_new 1 (fmempty :: (string, nat) fmap) ''u'' ''a'', vv_new 2 fmempty ''u'' ''b''] =
   foldl merge_cell None [vv_new 2 fmempty ''u'' ''b'', vv_new 1 fmempty ''u'' ''a'']"
proof (rule read_agrees_with_merge)
  show "clock_synchronous
      (set [vv_new 1 (fmempty :: (string, nat) fmap) ''u'' ''a'', vv_new 2 fmempty ''u'' ''b''])"
    unfolding clock_synchronous_def by code_simp
qed auto

text \<open>
  C10: a read returns the latest version any replica reported. If the reported versions have
  timestamps that agree with their clocks, the answer is the one that supersedes all others,
  shown only to its owner.
\<close>

theorem get_value_latest:
  assumes "\<not> internal_request E req" and "extract_user_from_token E req = Inr user"
    and "clock_synchronous (set (replica_versions E remote t k nd))"
    and "replica_versions E remote t k nd \<noteq> []"
  shows "\<exists>latest \<in> set (replica_versions E remote t k nd).
    (\<forall>v \<in> set (replica_versions E remote t k nd). v \<noteq> latest \<longrightarrow> supersedes latest v) \<and>
    fst (get_value E remote req (t, k) nd) =
      (if owner latest = user then respond 200 (RecordJson latest)
       else respond 401 (ErrorJson ''Not authorized to view record''))"
proof -
  obtain m where "foldl merge_cell None (replica_versions E remote t k nd) = Some m"
    and m: "lww.winner (set (replica_versions E remote t k nd)) m"
    using lww.receive_all_winner [OF assms(3,4)] by blast
  then have "max_by cmp_versions (replica_versions E remote t k nd) = Some m"
    using max_by_merge [OF assms(3)] by simp
  then show ?thesis
    using m get_value_external [OF assms(1,2), of remote t k nd] by (auto simp: lww.winner_def)
qed

theorem get_value_latest_witness:
  "\<exists>latest \<in> set (replica_versions (sample_env ''n1'' 9) (\<lambda>_. FetchFailed) ''t'' ''k'' sample_node).
    fst (get_value (sample_env ''n1'' 9) (\<lambda>_. FetchFailed) (bearer ''Ualice'') (''t'', ''k'') sample_node) =
      (if owner latest = ''alice'' then respond 200 (RecordJson latest)
       else respond 401 (ErrorJson ''Not authorized to view record''))"
proof -
  have "\<not> internal_request (sample_env ''n1'' 9) (bearer ''Ualice'')"
    and "extract_user_from_token (sample_env ''n1'' 9) (bearer ''Ualice'') = Inr ''alice''"
    and "clock_synchronous
      (set (replica_versions (sample_env ''n1'' 9) (\<lambda>_. FetchFailed) ''t'' ''k'' sample_node))"
    and "replica_versions (sample_env ''n1'' 9) (\<lambda>_. FetchFailed) ''t'' ''k'' sample_node \<noteq> []"
    unfolding clock_synchronous_def by code_simp+
  from get_value_latest [OF this] show ?thesis
    by blast
qed

text \<open>
  C32: reads are confidential. An external GET that returns a record returns it to its owner
  only, with status 200, and the record is one that the local store or a contacted active
  replica holds; a read never changes the node.
\<close>

theorem get_value_confidential:
  assumes "get_value E remote req (t, k) nd = (resp, nd', out)" and "\<not> internal_request E req"
    and "body resp = RecordJson v"
  shows "extract_user_from_token E req = Inr (owner v) \<and> code resp = 200 \<and> nd' = nd \<and>
    (store_get t k (store nd) = Some v \<or>
     (\<exists>a \<in> set (replication_targets E k nd). remote a = FetchOk (Some v)))"
proof -
  obtain user where user: "extract_user_from_token E req = Inr user"
    using assms by (cases "extract_user_from_token E req") (auto simp: get_value_def)
  from assms have max: "max_by cmp_versions (replica_versions E remote t k nd) = Some v"
    and "owner v = user" "code resp = 200" "nd' = nd"
    by (auto simp: get_value_external [OF assms(2) user] split: option.splits if_splits)
  moreover have "v \<in> set (replica_versions E remote t k nd)"
    using max by (rule max_by_mem)
  ultimately show ?thesis
    using user by (auto simp: replica_versions_responses mem_replica_responses split: if_splits)
qed

theorem get_value_confidential_witness:
  "extract_user_from_token (sample_env ''n1'' 9) (bearer ''Ualice'') = Inr ''alice''"
proof -
  let ?v = "vv_new 5 (fmupd ''f'' ''x'' fmempty) ''alice'' ''n1''"
  have get: "get_value (sample_env ''n1'' 9) (\<lambda>_. FetchFailed) (bearer ''Ualice'') (''t'', ''k'') sample_node =
      (respond 200 (RecordJson ?v), sample_node, [])"
    by code_simp
  have "\<not> internal_request (sample_env ''n1'' 9) (bearer ''Ualice'')"
    by code_simp
  from get_value_confidential [OF get this, of ?v] show ?thesis
    by simp
qed

text \<open>
  C33: read repair only moves replicas forward. Every repair message of a GET carries the
  version the read selected, the cluster secret and the address of a replica that answered;
  delivered to that replica in the state it reported, it makes the replica hold the selected
  version, which it did not hold before.
\<close>

theorem read_repair_effective:
  assumes "get_value E remote req (t, k) nd = (resp, nd', out)"
    and "PutInternal a t' k' v secret n \<in> set out"
  shows "t' = t \<and> k' = k \<and> secret = cluster_secret E \<and>
    max_by cmp_versions (replica_versions E remote t k nd) = Some v \<and>
    (\<exists>cell. (a, cell) \<in> set (replica_responses E remote t k nd) \<and>
       cell \<noteq> Some v \<and> merge_cell cell v = Some v)"
proof -
  have ext: "\<not> internal_request E req"
    using assms by (auto simp: get_value_def Let_def)
  obtain user where user: "extract_user_from_token E req = Inr user"
    using assms ext by (cases "extract_user_from_token E req") (auto simp: get_value_def)
  from assms obtain cell where "max_by cmp_versions (replica_versions E remote t k nd) = Some v"
    and "t' = t" "k' = k" "secret = cluster_secret E"
    and "(a, cell) \<in> set (replica_responses E remote t k nd)" and "needs_repair v cell"
    by (auto simp: get_value_external [OF ext user] read_repairs_def split: option.splits)
  moreover from this have "cell \<noteq> Some v \<and> merge_cell cell v = Some v"
    by (auto simp: needs_repair_def merge_cell_def merge_version_def supersedes_def split: option.splits)
  ultimately show ?thesis
    by blast
qed

theorem read_repair_effective_witness:
  "max_by cmp_versions
      (replica_versions (sample_env ''n1'' 9) (\<lambda>_. FetchOk None) ''t'' ''k'' sample_node) =
     Some (vv_new 5 (fmupd ''f'' ''x'' fmempty) ''alice'' ''n1'')"
proof -
  let ?v = "vv_new 5 (fmupd ''f'' ''x'' fmempty) ''alice'' ''n1''"
  have "get_value (sample_env ''n1'' 9) (\<lambda>_. FetchOk None) (bearer ''Ualice'') (''t'', ''k'') sample_node =
      (respond 200 (RecordJson ?v), sample_node, [PutInternal ''n2'' ''t'' ''k'' ?v ''cs'' 1])"
    by code_simp
  from read_repair_effective [OF this, of "''n2''" "''t''" "''k''" ?v "''cs''" 1] show ?thesis
    by simp
qed

text \<open>
  Read repair overlooks stale replicas whose clock runs ahead. A replica whose version
  the selected one dominates, but whose timestamp is not smaller, is stale by the conflict
  rule and yet gets no repair message.
\<close>

theorem read_repair_misses_skewed:
  assumes "dominates latest v" and "timestamp latest \<le> timestamp v"
  shows "supersedes latest v \<and> merge_cell (Some v) latest = Some latest \<and> \<not> needs_repair latest (Some v)"
  using assms by (auto simp: supersedes_def merge_cell_def merge_version_def needs_repair_def)

theorem read_repair_misses_skewed_witness:
  "\<not> needs_repair (vv_update 3 fmempty ''b'' (vv_new 7 (fmempty :: (string, nat) fmap) ''u'' ''a''))
       (Some (vv_new 7 fmempty ''u'' ''a''))"
proof -
  let ?v = "vv_new 7 (fmempty :: (string, nat) fmap) ''u'' ''a''"
  have "dominates (vv_update 3 fmempty ''b'' ?v) ?v"
    by code_simp
  moreover have "timestamp (vv_update 3 fmempty ''b'' ?v) \<le> timestamp ?v"
    by simp
  ultimately show ?thesis
    using read_repair_misses_skewed by blast
qed

text \<open>
  C17: a client reads its own write. After a PUT that was accepted with 201, a GET at the same
  node with the same token returns the version just written, as long as the node is active in
  its own membership view, no ring positions collide, and no contacted replica reports a
  version that the written one does not supersede.
\<close>

theorem read_your_write:
  assumes put: "put_value E req (t, k) val nd = (respond 201 (RecordJson v), nd', out)"
    and int: "\<not> internal_request E req"
    and active: "fmlookup (nodes nd) (current_addr E) = Some info" "status info = Active"
    and ring: "collision_free (default_hash E) (get_active_nodes (iter_order E) (nodes nd))"
    and older: "\<forall>a w. remote a = FetchOk (Some w) \<longrightarrow> w = v \<or> supersedes v w"
  shows "vvalue v = val \<and> fst (get_value E remote req (t, k) nd') = respond 200 (RecordJson v)"
proof -
  obtain user where user: "extract_user_from_token E req = Inr user"
    and v: "vvalue v = val" "owner v = user"
    and nd': "store_get t k (store nd') = Some v" "nodes nd' = nodes nd"
    using put by (auto simp: put_value_def Let_def store_simps split: sum.splits option.splits if_splits
        dest: extract_user_Inl_code)
  have "current_addr E \<in> set (replication_targets E k nd')"
    using replication_targets_full [of E nd' k] ring active nd'(2) by auto
  with nd'(1) have "v \<in> set (replica_versions E remote t k nd')"
    by (auto simp: replica_versions_responses mem_replica_responses)
  moreover have "\<forall>y \<in> set (replica_versions E remote t k nd'). y \<noteq> v \<longrightarrow> supersedes v y"
    using older nd'(1)
    by (fastforce simp: replica_versions_responses mem_replica_responses split: if_splits)
  ultimately have "max_by cmp_versions (replica_versions E remote t k nd') = Some v"
    by (rule max_by_dominant)
  with v show ?thesis
    by (simp add: get_value_external [OF int user])
qed

theorem read_your_write_witness:
  "fst (get_value (sample_env ''n1'' 9) (\<lambda>_. FetchFailed) (bearer ''Ualice'') (''t'', ''k'')
      (fst (snd (put_value (sample_env ''n1'' 9) (bearer ''Ualice'') (''t'', ''k'') fmempty sample_node)))) =
   respond 200 (RecordJson
     (vv_update 9 fmempty ''n1'' (vv_new 5 (fmupd ''f'' ''x'' fmempty) ''alice'' ''n1'')))"
proof -
  let ?E = "sample_env ''n1'' 9" and ?req = "bearer ''Ualice''"
  let ?v = "vv_update 9 fmempty ''n1'' (vv_new 5 (fmupd ''f'' ''x'' fmempty) ''alice'' ''n1'')"
  obtain nd' out where put: "put_value ?E ?req (''t'', ''k'') fmempty sample_node =
      (respond 201 (RecordJson ?v), nd', out)"
  proof -
    have "fst (put_value ?E ?req (''t'', ''k'') fmempty sample_node) = respond 201 (RecordJson ?v)"
      by code_simp
    then show thesis
      using that by (metis prod.collapse)
  qed
  have "\<not> internal_request ?E ?req"
    and "fmlookup (nodes sample_node) (current_addr ?E) = Some \<lparr>status = Active, last_heartbeat = 1\<rparr>"
    and "collision_free (default_hash ?E) (get_active_nodes (iter_order ?E) (nodes sample_node))"
    by code_simp+
  with read_your_write [OF put, of _ "\<lambda>_. FetchFailed"] put show ?thesis
    by simp
qed

end
