(* ===== verification/Membership.thy ===== *)
theory Membership
  imports Engine
begin

text \<open>
  Cluster membership, \<^verbatim>\<open>network/broadcaster.rs\<close>: address rendering, the SWIM-style failure
  detector (direct heartbeat, indirect ping through helpers, status transitions), gossip of the
  membership table, and the membership endpoints. A step relation describes how the table
  changes when these tasks interleave at the granularity of the lock the code takes.
\<close>

section \<open>Addresses\<close>

text \<open>
  \<^verbatim>\<open>to_lowercase\<close>, on the ASCII letters: no other character has an ASCII letter of
  \<^verbatim>\<open>https\<close> as its lower case, so the comparison below sees the same result.
\<close>

definition to_lowercase :: "string \<Rightarrow> string" where
  "to_lowercase = map (\<lambda>c. if CHR ''A'' \<le> c \<and> c \<le> CHR ''Z'' then char_of (of_char c + (32 :: nat)) else c)"

definition get_scheme :: "('v, 'c) env \<Rightarrow> string" where
  "get_scheme E = (if map_option to_lowercase (var_dyna_mode E) = Some ''https'' then ''https'' else ''http'')"

definition build_url :: "('v, 'c) env \<Rightarrow> string \<Rightarrow> string \<Rightarrow> string" where
  "build_url E n endpoint =
     (let host = trim_end_matches_char (CHR ''/'')
            (trim_start_matches ''https://'' (trim_start_matches ''http://'' n));
          ep = trim_start_matches_char (CHR ''/'') endpoint
      in get_scheme E @ ''://'' @ host @ ''/'' @ ep)"

section \<open>The failure detector\<close>

text \<open>
  What the network answers: whether a GET of an address, and a POST of an indirect ping for a
  target, came back in time with a success status.
\<close>

record network =
  get_ok :: "string \<Rightarrow> bool"
  post_ok :: "string \<Rightarrow> string \<Rightarrow> bool"

definition indirect_ping :: "('v, 'c) env \<Rightarrow> network \<Rightarrow> string \<Rightarrow> 'v response" where
  "indirect_ping E net tgt =
     (if get_ok net (build_url E tgt ''heartbeat'')
      then respond 200 (StatusJson ''ok'') else respond 503 (StatusJson ''failed''))"

text \<open>The difference of two \<^verbatim>\<open>u128\<close> timestamps wraps in a release build, as word subtraction does.\<close>

definition update_node_status :: "u128 \<Rightarrow> u128 \<Rightarrow> node_info \<Rightarrow> node_info" where
  "update_node_status time timeout_threshold info =
     (case status info of
        Active \<Rightarrow> info\<lparr>status := Suspect\<rparr>
      | Suspect \<Rightarrow>
          if time - last_heartbeat info > timeout_threshold then info\<lparr>status := Down\<rparr> else info
      | _ \<Rightarrow> info)"

definition nodes_to_check :: "('v, 'c) env \<Rightarrow> hash_order \<Rightarrow> membership \<Rightarrow> string list" where
  "nodes_to_check E shuffle ns =
     take 3 (apply_order shuffle (map fst
       (filter (\<lambda>(n, info). n \<noteq> current_addr E \<and>
            (status info = Active \<or> status info = Suspect \<or> status info = Down))
          (iter_map (iter_order E) ns))))"

definition timeout_threshold_of :: "u64 \<Rightarrow> u128" where
  "timeout_threshold_of interval_sec = ucast interval_sec * 5000"

definition ping_helpers :: "('v, 'c) env \<Rightarrow> hash_order \<Rightarrow> string \<Rightarrow> membership \<Rightarrow> string list" where
  "ping_helpers E shuffle tgt ns =
     take 2 (apply_order shuffle
       (filter (\<lambda>addr. addr \<noteq> current_addr E \<and> addr \<noteq> tgt \<and>
            (case fmlookup ns addr of Some i \<Rightarrow> status i = Active | None \<Rightarrow> False))
          (map fst (iter_map (iter_order E) ns))))"

fun indirect_success :: "('v, 'c) env \<Rightarrow> network \<Rightarrow> string \<Rightarrow> string list \<Rightarrow> bool" where
  "indirect_success E net tgt [] = False"
| "indirect_success E net tgt (helper # helpers) =
     (if post_ok net (build_url E helper ''indirect_ping'') tgt then True
      else indirect_success E net tgt helpers)"

definition probe_target ::
    "('v, 'c) env \<Rightarrow> network \<Rightarrow> hash_order \<Rightarrow> string \<Rightarrow> membership \<Rightarrow> bool" where
  "probe_target E net shuffle tgt ns =
     (if get_ok net (build_url E tgt ''heartbeat'') then True
      else indirect_success E net tgt (ping_helpers E shuffle tgt ns))"

definition record_probe :: "u128 \<Rightarrow> u128 \<Rightarrow> bool \<Rightarrow> string \<Rightarrow> membership \<Rightarrow> membership" where
  "record_probe time timeout_threshold success tgt ns =
     (case fmlookup ns tgt of
        None \<Rightarrow> ns
      | Some info \<Rightarrow>
          if success then fmupd tgt (info\<lparr>status := Active, last_heartbeat := time\<rparr>) ns
          else fmupd tgt (update_node_status time timeout_threshold info) ns)"

text \<open>
  The loop over the chosen targets; the circumstances of each probe (time, network, helper
  shuffle) are its own.
\<close>

fun check_targets ::
    "(string \<Rightarrow> ('v, 'c) env \<times> network \<times> hash_order) \<Rightarrow> u128 \<Rightarrow> string list \<Rightarrow> membership \<Rightarrow>
     membership" where
  "check_targets at timeout_threshold [] ns = ns"
| "check_targets at timeout_threshold (tgt # targets) ns =
     (let (E, net, shuffle) = at tgt
      in check_targets at timeout_threshold targets
           (record_probe (now E) timeout_threshold (probe_target E net shuffle tgt ns) tgt ns))"

definition check_node_health ::
    "('v, 'c) env \<Rightarrow> hash_order \<Rightarrow> (string \<Rightarrow> ('v, 'c) env \<times> network \<times> hash_order) \<Rightarrow> u64 \<Rightarrow>
     ('v, 'c) node \<Rightarrow> ('v, 'c) node" where
  "check_node_health E shuffle at interval_sec nd =
     nd\<lparr>nodes := check_targets at (timeout_threshold_of interval_sec)
          (nodes_to_check E shuffle (nodes nd)) (nodes nd)\<rparr>"

section \<open>Gossip\<close>

definition gossip_targets :: "('v, 'c) env \<Rightarrow> hash_order \<Rightarrow> membership \<Rightarrow> string list" where
  "gossip_targets E shuffle ns =
     take 3 (apply_order shuffle
       (filter (\<lambda>addr. addr \<noteq> current_addr E \<and>
            (case fmlookup ns addr of Some i \<Rightarrow> status i = Active | None \<Rightarrow> False))
          (map fst (iter_map (iter_order E) ns))))"

definition gossip_membership :: "('v, 'c) env \<Rightarrow> hash_order \<Rightarrow> ('v, 'c) node \<Rightarrow> 'v outgoing list" where
  "gossip_membership E shuffle nd =
     map (\<lambda>n. GossipMembership n (build_url E n ''update_membership'') (nodes nd) (cluster_secret E))
       (gossip_targets E shuffle (nodes nd))"

text \<open>The background task: one entry of the list per round, with what the round meets.\<close>

fun membership_sync ::
    "u64 \<Rightarrow> (('v, 'c) env \<times> hash_order \<times> (string \<Rightarrow> ('v, 'c) env \<times> network \<times> hash_order) \<times> hash_order) list \<Rightarrow>
     ('v, 'c) node \<Rightarrow> ('v, 'c) node \<times> 'v outgoing list" where
  "membership_sync interval_sec [] nd = (nd, [])"
| "membership_sync interval_sec ((E, shuffle, at, shuffle') # rounds) nd =
     (let nd1 = check_node_health E shuffle at interval_sec nd;
          sent = gossip_membership E shuffle' nd1;
          (nd2, sent') = membership_sync interval_sec rounds nd1
      in (nd2, sent @ sent'))"

section \<open>Endpoints\<close>

definition heartbeat :: "('v, 'c) env \<Rightarrow> 'v response" where
  "heartbeat E = respond 200 (HeartbeatJson (now E))"

abbreviation MAX_CLUSTER_SIZE :: nat where
  "MAX_CLUSTER_SIZE \<equiv> 100"

definition valid_node_name :: "string \<Rightarrow> bool" where
  "valid_node_name n \<longleftrightarrow> n \<noteq> [] \<and> CHR '' '' \<notin> set n"

definition merge_node :: "string \<Rightarrow> node_info \<Rightarrow> membership \<Rightarrow> membership" where
  "merge_node n info ns =
     (if \<not> valid_node_name n then ns
      else case fmlookup ns n of
             None \<Rightarrow> if fcard (fmdom ns) \<ge> MAX_CLUSTER_SIZE then ns else fmupd n info ns
           | Some existing \<Rightarrow>
               if last_heartbeat info > last_heartbeat existing then fmupd n info ns else ns)"

fun merge_nodes :: "(string \<times> node_info) list \<Rightarrow> membership \<Rightarrow> membership" where
  "merge_nodes [] ns = ns"
| "merge_nodes ((n, info) # incoming) ns = merge_nodes incoming (merge_node n info ns)"

definition cluster_token_ok :: "('v, 'c) env \<Rightarrow> http_request \<Rightarrow> bool" where
  "cluster_token_ok E req =
     (case Option.bind (fmlookup req ''X-Cluster-Token'') to_str of
        Some token \<Rightarrow> token = cluster_secret E
      | None \<Rightarrow> False)"

text \<open>The body is what \<^verbatim>\<open>bincode::deserialize\<close> makes of the bytes, \<^verbatim>\<open>None\<close> when it fails.\<close>

definition update_membership ::
    "('v, 'c) env \<Rightarrow> http_request \<Rightarrow> membership option \<Rightarrow> ('v, 'c) node \<Rightarrow>
     'v response \<times> ('v, 'c) node" where
  "update_membership E req incoming nd =
     (if \<not> cluster_token_ok E req
      then (respond 401 (ErrorJson ''Unauthorized: Invalid or missing cluster token''), nd)
      else case incoming of
             None \<Rightarrow> (respond 400 NoBody, nd)
           | Some ms \<Rightarrow>
               (respond 200 NoBody,
                nd\<lparr>nodes := merge_nodes (iter_map (iter_order E) ms) (nodes nd)\<rparr>))"

definition get_membership :: "('v, 'c) env \<Rightarrow> ('v, 'c) node \<Rightarrow> 'v response" where
  "get_membership E nd =
     respond 200 (MembershipJson (nodes nd)
       (length (filter (\<lambda>(n, info). status info = Active) (iter_map (iter_order E) (nodes nd))))
       (now E))"

section \<open>Lemmas on the membership table\<close>

lemma record_probe_dom [simp]: "fmdom (record_probe time thr s tgt ns) = fmdom ns"
  by (auto simp: record_probe_def fmdomI split: option.splits)

lemma record_probe_lookup:
  "fmlookup (record_probe time thr s tgt ns) n =
     (if n = tgt then map_option (\<lambda>info. if s then info\<lparr>status := Active, last_heartbeat := time\<rparr>
                                      else update_node_status time thr info) (fmlookup ns n)
      else fmlookup ns n)"
  by (auto simp: record_probe_def split: option.splits)

lemma update_node_status_heartbeat [simp]:
  "last_heartbeat (update_node_status time thr info) = last_heartbeat info"
  by (auto simp: update_node_status_def split: node_status.splits)

lemma check_targets_lookup_other:
  "n \<notin> set targets \<Longrightarrow> fmlookup (check_targets at thr targets ns) n = fmlookup ns n"
  by (induction at thr targets ns rule: check_targets.induct)
    (auto simp: record_probe_lookup split: prod.splits)

lemma check_targets_dom [simp]: "fmdom (check_targets at thr targets ns) = fmdom ns"
  by (induction at thr targets ns rule: check_targets.induct) (auto split: prod.splits)

lemma check_targets_heard:
  assumes "distinct targets" and "tgt \<in> set targets" and "at tgt = (E, net, shuffle)"
    and "get_ok net (build_url E tgt ''heartbeat'')"
  shows "fmlookup (check_targets at thr targets ns) tgt =
    map_option (\<lambda>info. info\<lparr>status := Active, last_heartbeat := now E\<rparr>) (fmlookup ns tgt)"
  using assms
proof (induction at thr targets ns rule: check_targets.induct)
  case (2 at thr t targets ns)
  show ?case
  proof (cases "t = tgt")
    case True
    with 2 show ?thesis
      by (simp add: check_targets_lookup_other record_probe_lookup probe_target_def)
  next
    case False
    obtain E' net' shuffle' where "at t = (E', net', shuffle')"
      by (metis prod_cases3)
    with 2 False show ?thesis
      by (simp add: record_probe_lookup)
  qed
qed simp

lemma mem_nodes_to_check:
  "n \<in> set (nodes_to_check E shuffle ns) \<Longrightarrow>
     n \<noteq> current_addr E \<and> (\<exists>info. fmlookup ns n = Some info \<and> status info \<noteq> Leaving)"
  unfolding nodes_to_check_def
  by (drule in_set_takeD) (auto simp: mem_iter_map)

lemma distinct_filter_keys: "distinct (map fst xs) \<Longrightarrow> distinct (map fst (filter P xs))"
  by (induction xs) auto

lemma distinct_nodes_to_check: "distinct (nodes_to_check E shuffle ns)"
  by (simp add: nodes_to_check_def distinct_filter_keys distinct_iter_map)

lemma length_nodes_to_check: "length (nodes_to_check E shuffle ns) \<le> 3"
  by (simp add: nodes_to_check_def)

text \<open>What the loop over the incoming entries does to one name.\<close>

definition newer_info :: "node_info option \<Rightarrow> node_info option \<Rightarrow> node_info option" where
  "newer_info old new =
     (case (old, new) of
        (None, _) \<Rightarrow> new
      | (Some e, Some i) \<Rightarrow> if last_heartbeat i > last_heartbeat e then Some i else Some e
      | (Some e, None) \<Rightarrow> Some e)"

lemma merge_node_dom:
  "fset (fmdom ns) \<subseteq> fset (fmdom (merge_node n info ns))"
  "fset (fmdom (merge_node n info ns)) \<subseteq> insert n (fset (fmdom ns))"
  by (auto simp: merge_node_def split: option.splits)

lemma merge_node_size: "fcard (fmdom (merge_node n info ns)) \<le> max MAX_CLUSTER_SIZE (fcard (fmdom ns))"
proof -
  have "fcard (finsert n (fmdom ns)) \<le> Suc (fcard (fmdom ns))"
    by (simp add: fcard_finsert_if)
  moreover have "finsert n (fmdom ns) = fmdom ns" if "fmlookup ns n = Some i" for i
    using that by (simp add: finsert_absorb fmdomI)
  ultimately show ?thesis
    by (auto simp: merge_node_def split: option.splits)
qed

lemma merge_node_lookup:
  "fmlookup (merge_node n info ns) m =
     (if m = n \<and> valid_node_name n \<and> (n |\<in>| fmdom ns \<or> fcard (fmdom ns) < MAX_CLUSTER_SIZE)
      then newer_info (fmlookup ns n) (Some info) else fmlookup ns m)"
  by (auto simp: merge_node_def newer_info_def fmlookup_dom_iff split: option.splits)

lemma merge_nodes_keeps:
  "fmlookup ns n = Some old \<Longrightarrow>
   \<exists>new. fmlookup (merge_nodes incoming ns) n = Some new \<and> last_heartbeat old \<le> last_heartbeat new"
proof (induction incoming ns arbitrary: old rule: merge_nodes.induct)
  case (2 m info incoming ns)
  have "\<exists>mid. fmlookup (merge_node m info ns) n = Some mid \<and> last_heartbeat old \<le> last_heartbeat mid"
    using 2(2) by (auto simp: merge_node_def split: option.splits)
  then obtain mid where "fmlookup (merge_node m info ns) n = Some mid"
    and mid: "last_heartbeat old \<le> last_heartbeat mid"
    by blast
  from 2(1) [OF this(1)] mid show ?case
    by fastforce
qed simp

lemma merge_nodes_source:
  "fmlookup (merge_nodes incoming ns) n = Some info \<Longrightarrow>
   fmlookup ns n = Some info \<or> valid_node_name n \<and> (n, info) \<in> set incoming"
proof (induction incoming ns rule: merge_nodes.induct)
  case (2 m i incoming ns)
  then have "fmlookup (merge_node m i ns) n = Some info \<or> valid_node_name n \<and> (n, info) \<in> set incoming"
    by simp
  then show ?case
    by (auto simp: merge_node_def split: if_splits option.splits)
qed simp

lemma merge_nodes_tie:
  assumes "fmlookup ns n = Some old"
    and "\<And>info. (n, info) \<in> set incoming \<Longrightarrow> last_heartbeat info \<le> last_heartbeat old"
  shows "fmlookup (merge_nodes incoming ns) n = Some old"
  using assms
proof (induction incoming ns rule: merge_nodes.induct)
  case (2 m info incoming ns)
  then have "m = n \<Longrightarrow> last_heartbeat info \<le> last_heartbeat old"
    by simp
  with 2(2) have "fmlookup (merge_node m info ns) n = Some old"
    by (auto simp: merge_node_def not_less split: option.splits)
  with 2(1) [OF this] 2(3) show ?case
    by simp
qed simp

lemma merge_nodes_size:
  "fcard (fmdom (merge_nodes incoming ns)) \<le> max MAX_CLUSTER_SIZE (fcard (fmdom ns))"
proof (induction incoming ns rule: merge_nodes.induct)
  case (2 m i incoming ns)
  then show ?case
    using merge_node_size [of m i ns] by simp
qed simp

text \<open>While there is room, every valid incoming entry is considered, in any order.\<close>

definition valid_names :: "membership \<Rightarrow> string set" where
  "valid_names ms = {n \<in> fset (fmdom ms). valid_node_name n}"

lemma merge_nodes_lookup:
  assumes "distinct (map fst incoming)"
    and "card (fset (fmdom ns) \<union> {n \<in> fst ` set incoming. valid_node_name n}) \<le> MAX_CLUSTER_SIZE"
  shows "fmlookup (merge_nodes incoming ns) n =
    newer_info (fmlookup ns n) (if valid_node_name n then map_of incoming n else None)"
  using assms
proof (induction incoming ns rule: merge_nodes.induct)
  case (1 ns)
  then show ?case
    by (simp add: newer_info_def split: option.splits)
next
  case (2 m info incoming ns)
  let ?ns = "merge_node m info ns"
  let ?room = "\<lambda>inc ns. fset (fmdom ns) \<union> {n \<in> fst ` set inc. valid_node_name n}"
  have fin: "finite (?room ((m, info) # incoming) ns)"
    by simp
  have "fset (fmdom ?ns) \<subseteq> (if valid_node_name m then insert m (fset (fmdom ns)) else fset (fmdom ns))"
    by (auto simp: merge_node_def split: option.splits)
  then have "?room incoming ?ns \<subseteq> ?room ((m, info) # incoming) ns"
    by (auto split: if_splits)
  from order_trans [OF card_mono [OF fin this] 2(3)] 2(1,2) have IH: "fmlookup (merge_nodes incoming ?ns) n =
      newer_info (fmlookup ?ns n) (if valid_node_name n then map_of incoming n else None)"
    by simp
  have room: "fcard (fmdom ns) < MAX_CLUSTER_SIZE" if "valid_node_name m" "m |\<notin>| fmdom ns"
  proof -
    have "insert m (fset (fmdom ns)) \<subseteq> ?room ((m, info) # incoming) ns"
      using that by auto
    from order_trans [OF card_mono [OF fin this] 2(3)] that(2) show ?thesis
      by (simp add: fcard.rep_eq)
  qed
  have here: "fmlookup ?ns n = newer_info (fmlookup ns n) (if n = m \<and> valid_node_name m then Some info else None)"
    unfolding merge_node_lookup using room
    by (cases "fmlookup ns n") (auto simp: newer_info_def fmlookup_dom_iff)
  have "map_of incoming m = None"
    using 2(2) by (simp add: map_of_eq_None_iff)
  then show ?case
    unfolding merge_nodes.simps IH here
    by (cases "n = m") (simp_all add: newer_info_def split: option.splits)
qed

lemma merge_snapshot_lookup:
  assumes "card (fset (fmdom ns) \<union> valid_names ms) \<le> MAX_CLUSTER_SIZE"
  shows "fmlookup (merge_nodes (iter_map ord ms) ns) n =
    newer_info (fmlookup ns n) (if valid_node_name n then fmlookup ms n else None)"
proof -
  have keys: "fst ` set (iter_map ord ms) = fset (fmdom ms)"
    by (simp add: keys_iter_map sorted_list_of_fset.rep_eq flip: set_map)
  have "map_of (iter_map ord ms) = fmlookup ms"
    by (metis fmap_of_iter_map fmlookup_of_list ext)
  with merge_nodes_lookup [of "iter_map ord ms" ns n] assms keys show ?thesis
    by (simp add: distinct_iter_map valid_names_def)
qed

lemma update_membership_ok:
  "cluster_token_ok E req \<Longrightarrow>
   update_membership E req (Some ms) nd =
     (respond 200 NoBody, nd\<lparr>nodes := merge_nodes (iter_map (iter_order E) ms) (nodes nd)\<rparr>)"
  by (simp add: update_membership_def)

definition cluster_header :: "string \<Rightarrow> http_request" where
  "cluster_header token = fmupd ''X-Cluster-Token'' (HText token) fmempty"

lemma cluster_header_ok [simp]: "cluster_token_ok E (cluster_header s) \<longleftrightarrow> s = cluster_secret E"
  by (simp add: cluster_token_ok_def cluster_header_def)

text \<open>Trailing slashes do not turn a host name into one with a scheme.\<close>

lemma starts_with_slashes:
  assumes "starts_with (p @ ''://'') (host @ replicate k (CHR ''/''))"
    and "CHR ''/'' \<notin> set p" and "CHR ''/'' \<notin> set host"
  shows "host = p @ '':''"
proof -
  let ?upto = "takeWhile (\<lambda>c. c \<noteq> CHR ''/'')"
  have plain: "?upto (xs @ ys) = xs @ ?upto ys" if "CHR ''/'' \<notin> set xs" for xs ys
    using that by (induction xs) auto
  obtain r where "host @ replicate k (CHR ''/'') = (p @ '':'') @ ''//'' @ r"
    using assms(1) starts_with_iff [of "p @ ''://''"] by auto
  then have "?upto (host @ replicate k (CHR ''/'')) = ?upto ((p @ '':'') @ ''//'' @ r)"
    by (rule arg_cong)
  then have "host @ ?upto (replicate k (CHR ''/'')) = (p @ '':'') @ ?upto (''//'' @ r)"
    using assms(2,3) by (subst (asm) (1 2) plain) auto
  then show ?thesis
    by (simp add: takeWhile_replicate)
qed

section \<open>Probe histories\<close>

text \<open>The effect of successive probes of one target: the time and the outcome of each.\<close>

fun probe_history :: "u128 \<Rightarrow> string \<Rightarrow> (u128 \<times> bool) list \<Rightarrow> membership \<Rightarrow> membership" where
  "probe_history thr tgt [] ns = ns"
| "probe_history thr tgt ((t, s) # ps) ns = probe_history thr tgt ps (record_probe t thr s tgt ns)"

lemma probe_history_append:
  "probe_history thr tgt (ps @ qs) ns = probe_history thr tgt qs (probe_history thr tgt ps ns)"
  by (induction thr tgt ps ns rule: probe_history.induct) auto

lemma probe_history_known:
  "(fmlookup (probe_history thr tgt ps ns) tgt = None) = (fmlookup ns tgt = None)"
  by (induction thr tgt ps ns rule: probe_history.induct) (auto simp: record_probe_lookup)

lemma failures_down:
  "fmlookup ns tgt = Some \<lparr>status = Down, last_heartbeat = h\<rparr> \<Longrightarrow>
   fmlookup (probe_history thr tgt (map (\<lambda>t. (t, False)) fs) ns) tgt =
     Some \<lparr>status = Down, last_heartbeat = h\<rparr>"
  by (induction fs arbitrary: ns) (auto simp: record_probe_lookup update_node_status_def)

lemma failures_suspect:
  "fmlookup ns tgt = Some \<lparr>status = Suspect, last_heartbeat = h\<rparr> \<Longrightarrow>
   fmlookup (probe_history thr tgt (map (\<lambda>t. (t, False)) fs) ns) tgt =
     Some \<lparr>status = if \<exists>t \<in> set fs. t - h > thr then Down else Suspect, last_heartbeat = h\<rparr>"
proof (induction fs arbitrary: ns)
  case (Cons t fs)
  show ?case
  proof (cases "t - h > thr")
    case True
    with Cons.prems show ?thesis
      by (simp add: record_probe_lookup update_node_status_def failures_down)
  next
    case False
    with Cons show ?thesis
      by (simp add: record_probe_lookup update_node_status_def)
  qed
qed simp

section \<open>Interleaving\<close>

text \<open>
  A cluster: every node's clock and state, and the membership snapshots that were ever sent. Each
  node reads its own clock; \<open>ok\<close> says which combinations of readings occur (any at all, equal
  ones, or ones close to each other), and readings never go back. A snapshot may be delivered late, in any
  order, repeatedly or never. The steps are the critical sections of the code: recording a
  probe, sending and merging a snapshot, admitting a new node.
\<close>

record ('v, 'c) cluster =
  clock :: "string \<Rightarrow> u128"
  members :: "string \<Rightarrow> ('v, 'c) node"
  in_flight :: "membership list"

inductive cluster_step ::
    "u128 \<Rightarrow> ((string \<Rightarrow> u128) \<Rightarrow> bool) \<Rightarrow> ('v, 'c) cluster \<Rightarrow> ('v, 'c) cluster \<Rightarrow> bool"
  for thr :: u128 and ok :: "(string \<Rightarrow> u128) \<Rightarrow> bool" where
  tick: "(\<And>p. clock c p \<le> cl p) \<Longrightarrow> ok cl \<Longrightarrow> cluster_step thr ok c (c\<lparr>clock := cl\<rparr>)"
| probe: "cluster_step thr ok c (c\<lparr>members := (members c)
     (p := (members c p)\<lparr>nodes := record_probe (clock c p) thr s tgt (nodes (members c p))\<rparr>)\<rparr>)"
| send: "m \<in> set (gossip_membership E shuffle (members c p)) \<Longrightarrow> m = GossipMembership tgt url ms secret \<Longrightarrow>
     cluster_step thr ok c (c\<lparr>in_flight := ms # in_flight c\<rparr>)"
| deliver: "ms \<in> set (in_flight c) \<Longrightarrow> update_membership E req (Some ms) (members c p) = (r, nd) \<Longrightarrow>
     cluster_step thr ok c (c\<lparr>members := (members c)(p := nd)\<rparr>)"
| join: "now E = clock c p \<Longrightarrow> join_cluster E permit n secret (members c p) = (r, nd, g) \<Longrightarrow>
     cluster_step thr ok c (c\<lparr>members := (members c)(p := nd)\<rparr>)"

inductive cluster_reach ::
    "u128 \<Rightarrow> ((string \<Rightarrow> u128) \<Rightarrow> bool) \<Rightarrow> ('v, 'c) cluster \<Rightarrow> ('v, 'c) cluster \<Rightarrow> bool"
  for thr :: u128 and ok :: "(string \<Rightarrow> u128) \<Rightarrow> bool" and c :: "('v, 'c) cluster" where
  start: "cluster_reach thr ok c c"
| step: "cluster_reach thr ok c d \<Longrightarrow> cluster_step thr ok d e \<Longrightarrow> cluster_reach thr ok c e"

text \<open>
  A heartbeat time \<open>h\<close> was heard of when some clock has reached it. It was given up when at
  some moment, with the clocks at \<open>cl'\<close>, it had been heard of and one node computed a difference above
  the timeout.
\<close>

definition heard :: "(string \<Rightarrow> u128) \<Rightarrow> u128 \<Rightarrow> bool" where
  "heard cl h \<longleftrightarrow> (\<exists>q. h \<le> cl q)"

definition given_up :: "u128 \<Rightarrow> ((string \<Rightarrow> u128) \<Rightarrow> bool) \<Rightarrow> (string \<Rightarrow> u128) \<Rightarrow> u128 \<Rightarrow> bool" where
  "given_up thr ok cl h \<longleftrightarrow> (\<exists>cl' q. ok cl' \<and> (\<forall>r. cl' r \<le> cl r) \<and> heard cl' h \<and> cl' q - h > thr)"

definition justified :: "u128 \<Rightarrow> ((string \<Rightarrow> u128) \<Rightarrow> bool) \<Rightarrow> (string \<Rightarrow> u128) \<Rightarrow> node_info \<Rightarrow> bool" where
  "justified thr ok cl info \<longleftrightarrow> heard cl (last_heartbeat info) \<and>
     (status info = Down \<longrightarrow> given_up thr ok cl (last_heartbeat info))"

definition justified_table ::
    "u128 \<Rightarrow> ((string \<Rightarrow> u128) \<Rightarrow> bool) \<Rightarrow> (string \<Rightarrow> u128) \<Rightarrow> membership \<Rightarrow> bool" where
  "justified_table thr ok cl ns \<longleftrightarrow> (\<forall>n info. fmlookup ns n = Some info \<longrightarrow> justified thr ok cl info)"

definition justified_cluster :: "u128 \<Rightarrow> ((string \<Rightarrow> u128) \<Rightarrow> bool) \<Rightarrow> ('v, 'c) cluster \<Rightarrow> bool" where
  "justified_cluster thr ok c \<longleftrightarrow> ok (clock c) \<and>
     (\<forall>p. justified_table thr ok (clock c) (nodes (members c p))) \<and>
     (\<forall>ms \<in> set (in_flight c). justified_table thr ok (clock c) ms)"

lemma word_diff_mono: "(h :: 'a::len word) \<le> t \<Longrightarrow> t \<le> t' \<Longrightarrow> t - h \<le> t' - h"
proof -
  assume le: "h \<le> t" "t \<le> t'"
  then have "unat (t - h) = unat t - unat h" and "unat (t' - h) = unat t' - unat h"
    using unat_sub [of h t] unat_sub [OF order_trans [OF le]] by simp_all
  with le show "t - h \<le> t' - h"
    unfolding word_le_nat_alt by (metis diff_le_mono)
qed

lemma heard_now [simp]: "heard cl (cl p)"
  by (auto simp: heard_def)

lemma justified_later:
  assumes "justified thr ok cl info" and "\<And>r. cl r \<le> cl' r"
  shows "justified thr ok cl' info"
proof -
  have "heard cl h \<Longrightarrow> heard cl' h" for h
    using assms(2) by (auto simp: heard_def intro: order_trans)
  moreover have "given_up thr ok cl h \<Longrightarrow> given_up thr ok cl' h" for h
    using assms(2) unfolding given_up_def by (meson order_trans)
  ultimately show ?thesis
    using assms(1) by (auto simp: justified_def)
qed

lemma justified_table_later:
  "justified_table thr ok cl ns \<Longrightarrow> (\<And>r. cl r \<le> cl' r) \<Longrightarrow> justified_table thr ok cl' ns"
  unfolding justified_table_def by (blast intro: justified_later)

lemma justified_update_status:
  "justified thr ok cl info \<Longrightarrow> ok cl \<Longrightarrow> justified thr ok cl (update_node_status (cl p) thr info)"
  by (cases "status info") (auto simp: justified_def update_node_status_def given_up_def)

lemma justified_heard: "justified thr ok cl (info\<lparr>status := Active, last_heartbeat := cl p\<rparr>)"
  by (auto simp: justified_def heard_def)

lemma justified_probe:
  assumes "justified_table thr ok cl ns" and "ok cl"
  shows "justified_table thr ok cl (record_probe (cl p) thr s tgt ns)"
  unfolding justified_table_def
proof (intro allI impI)
  fix n info
  assume "fmlookup (record_probe (cl p) thr s tgt ns) n = Some info"
  then obtain old where "fmlookup ns n = Some old"
    and "info = old \<or> info = old\<lparr>status := Active, last_heartbeat := cl p\<rparr> \<or>
      info = update_node_status (cl p) thr old"
    by (auto simp: record_probe_lookup split: if_splits)
  with assms justified_update_status justified_heard show "justified thr ok cl info"
    unfolding justified_table_def by blast
qed

lemma justified_merge:
  "justified_table thr ok cl ms \<Longrightarrow> justified_table thr ok cl ns \<Longrightarrow>
   justified_table thr ok cl (merge_nodes (iter_map ord ms) ns)"
  unfolding justified_table_def using merge_nodes_source mem_iter_map by metis

lemma justified_update:
  assumes "update_membership E req (Some ms) nd = (r, nd')"
    and "justified_table thr ok cl ms" and "justified_table thr ok cl (nodes nd)"
  shows "justified_table thr ok cl (nodes nd')"
  using assms by (auto simp: update_membership_def justified_merge split: if_splits)

lemma justified_join:
  assumes "join_cluster E permit n secret nd = (r, nd', g)" and "now E = cl p"
    and "justified_table thr ok cl (nodes nd)"
  shows "justified_table thr ok cl (nodes nd')"
  using assms
  by (auto simp: join_cluster_def Let_def justified_table_def justified_def split: if_splits)

lemma justified_step:
  assumes "cluster_step thr ok c d" and "justified_cluster thr ok c"
  shows "justified_cluster thr ok d"
  using assms
proof (cases rule: cluster_step.cases)
  case (tick cl)
  with assms(2) show ?thesis
    by (auto simp: justified_cluster_def intro: justified_table_later)
next
  case (probe p s tgt)
  with assms(2) show ?thesis
    by (auto simp: justified_cluster_def justified_probe)
next
  case (send m E shuffle p tgt url ms secret)
  with assms(2) show ?thesis
    by (auto simp: justified_cluster_def gossip_membership_def)
next
  case (deliver ms E req p r nd)
  with assms(2) justified_update [OF deliver(3)] show ?thesis
    by (auto simp: justified_cluster_def)
next
  case (join E p permit n secret r nd g)
  with assms(2) justified_join [OF join(3), of "clock c"] show ?thesis
    by (auto simp: justified_cluster_def)
qed

lemma justified_reach:
  "cluster_reach thr ok c d \<Longrightarrow> justified_cluster thr ok c \<Longrightarrow> justified_cluster thr ok d"
  by (induction rule: cluster_reach.induct) (auto intro: justified_step)

section \<open>Properties of the membership protocol\<close>

definition fresh_cluster :: "((string \<Rightarrow> u128) \<Rightarrow> bool) \<Rightarrow> ('v, 'c) cluster \<Rightarrow> bool" where
  "fresh_cluster ok c \<longleftrightarrow> in_flight c = [] \<and> ok (clock c) \<and>
     (\<forall>p n info. fmlookup (nodes (members c p)) n = Some info \<longrightarrow>
        status info = Active \<and> heard (clock c) (last_heartbeat info))"

lemma fresh_justified: "fresh_cluster ok c \<Longrightarrow> justified_cluster thr ok c"
  by (fastforce simp: fresh_cluster_def justified_cluster_def justified_table_def justified_def)

text \<open>
  C11: death verdicts are justified, in every interleaving. Start from a cluster whose
  members only list active nodes, with heartbeat times that some clock has reached, and take any sequence of clock ticks, probes, gossip
  messages (late, reordered, repeated or lost) and joins, in which every node reads its own
  clock, which never goes back. If some member lists a node as \<^verbatim>\<open>Down\<close>, then the clock of some member has passed the
  entry's heartbeat time by more than the timeout, or at some earlier moment one member's clock was behind
  the heartbeat time while another's had reached it. If all nodes read the same time, the second
  cannot happen, and the lister's clock itself has passed the heartbeat time by more than the timeout.
\<close>

theorem down_verdicts_justified:
  assumes "fresh_cluster ok c" and "cluster_reach thr ok c d"
    and "fmlookup (nodes (members d p)) n = Some info" and "status info = Down"
  shows "((\<exists>q. last_heartbeat info \<le> clock d q \<and> clock d q - last_heartbeat info > thr) \<or>
      (\<exists>cl q q'. ok cl \<and> (\<forall>r. cl r \<le> clock d r) \<and> cl q < last_heartbeat info \<and> last_heartbeat info \<le> cl q')) \<and>
    ((\<forall>cl. ok cl \<longrightarrow> (\<forall>q r. cl q = cl r)) \<longrightarrow>
      last_heartbeat info \<le> clock d p \<and> clock d p - last_heartbeat info > thr)"
proof -
  let ?h = "last_heartbeat info"
  have "justified_cluster thr ok d"
    using assms(1,2) fresh_justified justified_reach by blast
  then have okd: "ok (clock d)" and "given_up thr ok (clock d) ?h"
    using assms(3,4) by (auto simp: justified_cluster_def justified_table_def justified_def)
  then obtain cl q q' where cl: "ok cl" "\<forall>r. cl r \<le> clock d r" "?h \<le> cl q'" "cl q - ?h > thr"
    by (auto simp: given_up_def heard_def)
  have silent: "?h \<le> clock d q \<and> clock d q - ?h > thr" if "?h \<le> cl q"
    using that cl(2,4) word_diff_mono [OF that, of "clock d q"] by (meson order_trans less_le_trans)
  have "?h \<le> clock d p \<and> clock d p - ?h > thr" if same: "\<forall>cl. ok cl \<longrightarrow> (\<forall>q r. cl q = cl r)"
    using silent cl(1,3) okd same by metis
  with silent cl show ?thesis
    using not_le by blast
qed

definition sample_cluster :: "(string, string queue_channel) cluster" where
  "sample_cluster = \<lparr>clock = (\<lambda>_. 1), members = (\<lambda>_. sample_node), in_flight = []\<rparr>"

theorem down_verdicts_justified_witness:
  "\<exists>d info. cluster_reach 10 (\<lambda>cl. \<forall>q r. cl q = cl r) sample_cluster d \<and>
     fmlookup (nodes (members d ''n1'')) ''n2'' = Some info \<and> status info = Down \<and>
     last_heartbeat info \<le> clock d ''n1'' \<and> clock d ''n1'' - last_heartbeat info > 10"
proof -
  let ?ok = "\<lambda>cl :: string \<Rightarrow> u128. \<forall>q r. cl q = cl r"
  let ?fail = "\<lambda>c :: (string, string queue_channel) cluster. c\<lparr>members := (members c)
     (''n1'' := (members c ''n1'')\<lparr>nodes := record_probe (clock c ''n1'') 10 False ''n2'' (nodes (members c ''n1''))\<rparr>)\<rparr>"
  let ?d = "?fail ((?fail sample_cluster)\<lparr>clock := (\<lambda>_. 20)\<rparr>)"
  let ?info = "\<lparr>status = Down, last_heartbeat = 1\<rparr>"
  have one: "cluster_reach 10 ?ok sample_cluster (?fail sample_cluster)"
    by (rule cluster_reach.step [OF cluster_reach.start cluster_step.probe])
  have "cluster_reach 10 ?ok sample_cluster ((?fail sample_cluster)\<lparr>clock := (\<lambda>_. 20)\<rparr>)"
    by (rule cluster_reach.step [OF one cluster_step.tick]) (simp_all add: sample_cluster_def)
  then have reach: "cluster_reach 10 ?ok sample_cluster ?d"
    by (rule cluster_reach.step [OF _ cluster_step.probe])
  have entry: "fmlookup (nodes (members ?d ''n1'')) ''n2'' = Some ?info"
    by (simp add: sample_cluster_def sample_node_def record_probe_lookup update_node_status_def)
  have "fresh_cluster ?ok sample_cluster"
    by (auto simp: fresh_cluster_def sample_cluster_def sample_node_def heard_def split: if_splits)
  from down_verdicts_justified [OF this reach entry] reach entry show ?thesis
    by fastforce
qed

text \<open>
  C27: the verdict of the failure detector, exactly. After a successful probe at \<open>t0\<close> followed
  by failed ones, the node is \<^verbatim>\<open>Active\<close> if none failed, \<^verbatim>\<open>Down\<close> if some failed probe after the
  first one came more than the timeout after \<open>t0\<close>, and \<^verbatim>\<open>Suspect\<close> otherwise; whatever
  happened before. A single lost probe therefore never takes a node down, and a node that
  answers again is active at once.
\<close>

theorem detector_verdict:
  assumes "fmlookup ns tgt \<noteq> None"
  shows "fmlookup (probe_history thr tgt (ps @ (t0, True) # map (\<lambda>t. (t, False)) fs) ns) tgt =
    Some \<lparr>status = if fs = [] then Active
                    else if \<exists>t \<in> set (tl fs). t - t0 > thr then Down else Suspect,
          last_heartbeat = t0\<rparr>"
proof -
  let ?ns = "probe_history thr tgt (ps @ [(t0, True)]) ns"
  from assms have "fmlookup (probe_history thr tgt ps ns) tgt \<noteq> None"
    by (simp add: probe_history_known)
  then have up: "fmlookup ?ns tgt = Some \<lparr>status = Active, last_heartbeat = t0\<rparr>"
    by (auto simp: probe_history_append record_probe_lookup)
  have split: "probe_history thr tgt (ps @ (t0, True) # map (\<lambda>t. (t, False)) fs) ns =
      probe_history thr tgt (map (\<lambda>t. (t, False)) fs) ?ns"
    by (simp add: probe_history_append)
  show ?thesis
  proof (cases fs)
    case Nil
    with up show ?thesis
      by simp
  next
    case (Cons f rest)
    have "fmlookup (record_probe f thr False tgt ?ns) tgt =
        Some \<lparr>status = Suspect, last_heartbeat = t0\<rparr>"
      using up by (simp add: record_probe_lookup update_node_status_def)
    from failures_suspect [OF this] Cons split show ?thesis
      by simp
  qed
qed

theorem detector_verdict_witness:
  "fmlookup (probe_history 10 ''n2'' ([] @ (5, True) # map (\<lambda>t. (t, False)) [8, 30]) (nodes sample_node)) ''n2'' =
     Some \<lparr>status = Down, last_heartbeat = 5\<rparr>"
proof -
  have "fmlookup (nodes sample_node) ''n2'' \<noteq> None"
    by (simp add: sample_node_def)
  from detector_verdict [OF this, of 10 "[]" 5 "[8, 30]"] show ?thesis
    by simp
qed

text \<open>
  A clock that is behind declares suspects dead. The elapsed time is an unsigned
  difference; if the heartbeat time of a suspect lies in the node's future (it was
  recorded by a peer and gossiped), the difference wraps to a huge value, and the next failed
  probe marks the node \<^verbatim>\<open>Down\<close> regardless of the interval.
\<close>

theorem skewed_clock_kills_suspect:
  assumes "status info = Suspect" and "last_heartbeat info = t + d" and "0 < d" and "d \<le> 2 ^ 64"
  shows "update_node_status t (timeout_threshold_of interval_sec) info = info\<lparr>status := Down\<rparr>"
proof -
  have d: "0 < uint d" "uint d \<le> 2 ^ 64"
    using assms(3,4) by (simp_all add: word_less_def word_le_def)
  have "uint (t - (t + d)) = uint (- d)"
    by simp
  also have "\<dots> = 2 ^ 128 - uint d"
    using d by (simp add: uint_word_ariths zmod_zminus1_eq_if)
  finally have big: "uint (t - (t + d)) = 2 ^ 128 - uint d" .
  have i: "uint interval_sec < 2 ^ 64" "0 \<le> uint interval_sec"
    using uint_lt2p [of interval_sec] by simp_all
  have "uint (timeout_threshold_of interval_sec) \<le> uint interval_sec * 5000"
    using i by (simp add: timeout_threshold_of_def uint_word_ariths uint_up_ucast is_up_def
        source_size_def target_size_def word_size zmod_le_nonneg_dividend)
  also have "\<dots> < 2 ^ 128 - uint d"
    using d i by simp
  finally have "timeout_threshold_of interval_sec < t - (t + d)"
    unfolding word_less_def big .
  with assms show ?thesis
    by (simp add: update_node_status_def)
qed

theorem skewed_clock_kills_suspect_witness:
  "update_node_status 1000 (timeout_threshold_of 60) \<lparr>status = Suspect, last_heartbeat = 1001\<rparr> =
     \<lparr>status = Down, last_heartbeat = 1001\<rparr>"
  using skewed_clock_kills_suspect [of "\<lparr>status = Suspect, last_heartbeat = 1001\<rparr>" 1000 1 60]
  by simp

text \<open>
  One health round is local and bounded. It probes at most three distinct other nodes, it
  changes no entry but theirs (its own entry and the entries of leaving nodes stay), it
  neither adds nor removes a member, and a probed node that answers the direct heartbeat is
  listed active as of the time of its probe.
\<close>

theorem health_round:
  "let targets = nodes_to_check E shuffle (nodes nd);
       after = nodes (check_node_health E shuffle at interval_sec nd)
   in length targets \<le> 3 \<and> distinct targets \<and> current_addr E \<notin> set targets \<and>
      fmdom after = fmdom (nodes nd) \<and>
      (\<forall>n. n \<notin> set targets \<longrightarrow> fmlookup after n = fmlookup (nodes nd) n) \<and>
      (\<forall>n info. fmlookup (nodes nd) n = Some info \<longrightarrow> status info = Leaving \<longrightarrow>
         fmlookup after n = Some info) \<and>
      (\<forall>n E' net shuffle'. n \<in> set targets \<longrightarrow> at n = (E', net, shuffle') \<longrightarrow>
         get_ok net (build_url E' n ''heartbeat'') \<longrightarrow>
         fmlookup after n = Some \<lparr>status = Active, last_heartbeat = now E'\<rparr>)"
proof -
  let ?targets = "nodes_to_check E shuffle (nodes nd)"
  let ?after = "nodes (check_node_health E shuffle at interval_sec nd)"
  have same: "fmlookup ?after n = fmlookup (nodes nd) n" if "n \<notin> set ?targets" for n
    using that by (simp add: check_node_health_def check_targets_lookup_other)
  have leaving: "fmlookup ?after n = Some info"
    if "fmlookup (nodes nd) n = Some info" "status info = Leaving" for n info
    using that same mem_nodes_to_check [of n E shuffle "nodes nd"] by fastforce
  have heard: "fmlookup ?after n = Some \<lparr>status = Active, last_heartbeat = now E'\<rparr>"
    if heard: "n \<in> set ?targets" "at n = (E', net, shuffle')" "get_ok net (build_url E' n ''heartbeat'')"
    for n E' net shuffle'
  proof -
    obtain info where "fmlookup (nodes nd) n = Some info"
      using mem_nodes_to_check [OF heard(1)] by blast
    with check_targets_heard [where at = at, OF distinct_nodes_to_check heard] show ?thesis
      by (simp add: check_node_health_def)
  qed
  show ?thesis
    unfolding Let_def
    using same leaving heard length_nodes_to_check [of E shuffle "nodes nd"]
      distinct_nodes_to_check [of E shuffle "nodes nd"] mem_nodes_to_check [of "current_addr E" E shuffle "nodes nd"]
    by (auto simp: check_node_health_def)
qed

theorem health_round_witness:
  "fmlookup (nodes (check_node_health (sample_env ''n1'' 9) sorted_order
       (\<lambda>_. (sample_env ''n1'' 9, \<lparr>get_ok = (\<lambda>u. u = ''http://n2/heartbeat''), post_ok = (\<lambda>_ _. False)\<rparr>, sorted_order))
       60 sample_node)) ''n2'' =
     Some \<lparr>status = Active, last_heartbeat = 9\<rparr>"
proof -
  let ?E = "sample_env ''n1'' 9"
  let ?net = "\<lparr>get_ok = (\<lambda>u. u = ''http://n2/heartbeat''), post_ok = (\<lambda>_ _. False)\<rparr>"
  have "''n2'' \<in> set (nodes_to_check ?E sorted_order (nodes sample_node))"
    by code_simp
  moreover have "get_ok ?net (build_url ?E ''n2'' ''heartbeat'')"
    by code_simp
  moreover have "now ?E = 9"
    by (simp add: sample_env_def)
  ultimately show ?thesis
    using health_round [of ?E sorted_order sample_node "\<lambda>_. (?E, ?net, sorted_order)" 60]
    unfolding Let_def by simp
qed

text \<open>
  C25: merging a gossiped table. An authenticated update keeps, for every member name, the
  entry with the newer heartbeat (the local one on a tie) and admits every well-formed new name,
  whatever order the incoming map is iterated in, as long as the members fit into the limit.
\<close>

theorem gossip_merge:
  assumes "cluster_token_ok E req"
    and "card (fset (fmdom (nodes nd)) \<union> valid_names ms) \<le> MAX_CLUSTER_SIZE"
    and "update_membership E req (Some ms) nd = (r, nd')"
  shows "r = respond 200 NoBody \<and> store nd' = store nd \<and>
    fmlookup (nodes nd') n =
      newer_info (fmlookup (nodes nd) n) (if valid_node_name n then fmlookup ms n else None)"
  using assms(3) merge_snapshot_lookup [OF assms(2)] by (auto simp: update_membership_ok [OF assms(1)])

theorem gossip_merge_witness:
  "fmlookup (nodes (snd (update_membership (sample_env ''n1'' 9) (cluster_header ''cs'')
     (Some (fmupd ''n3'' \<lparr>status = Active, last_heartbeat = 7\<rparr> fmempty)) sample_node))) ''n3'' =
   Some \<lparr>status = Active, last_heartbeat = 7\<rparr>"
proof -
  let ?ms = "fmupd ''n3'' \<lparr>status = Active, last_heartbeat = 7\<rparr> fmempty"
  have "fset (fmdom (nodes sample_node)) \<union> valid_names ?ms \<subseteq> {''n1'', ''n2'', ''n3''}"
    by (auto simp: sample_node_def valid_names_def)
  then have "card (fset (fmdom (nodes sample_node)) \<union> valid_names ?ms) \<le> card {''n1'', ''n2'', ''n3''}"
    by (intro card_mono) auto
  then have "card (fset (fmdom (nodes sample_node)) \<union> valid_names ?ms) \<le> MAX_CLUSTER_SIZE"
    by simp
  from gossip_merge [OF _ this prod.collapse [symmetric], of "sample_env ''n1'' 9" "cluster_header ''cs''" "''n3''"]
  show ?thesis
    by (simp add: cluster_secret_def sample_env_def newer_info_def valid_node_name_def sample_node_def)
qed

text \<open>
  C26: an update never harms the table. Whatever it receives, the endpoint loses no member, moves no
  heartbeat backwards, admits no empty name and no name with a space, only stores entries that
  it received or had, and never grows the table beyond the limit; without the cluster
  token, or with a body that does not parse, it changes nothing.
\<close>

theorem gossip_safe:
  assumes "update_membership E req incoming nd = (r, nd')"
  shows "(\<forall>n old. fmlookup (nodes nd) n = Some old \<longrightarrow>
           (\<exists>new. fmlookup (nodes nd') n = Some new \<and> last_heartbeat old \<le> last_heartbeat new)) \<and>
    (\<forall>n info. fmlookup (nodes nd') n = Some info \<longrightarrow> fmlookup (nodes nd) n = Some info \<or>
       valid_node_name n \<and> (\<exists>ms. incoming = Some ms \<and> fmlookup ms n = Some info)) \<and>
    fcard (fmdom (nodes nd')) \<le> max MAX_CLUSTER_SIZE (fcard (fmdom (nodes nd))) \<and>
    (\<not> cluster_token_ok E req \<longrightarrow> nd' = nd \<and> code r = 401) \<and>
    (cluster_token_ok E req \<longrightarrow> incoming = None \<longrightarrow> nd' = nd \<and> code r = 400)"
proof (cases "cluster_token_ok E req \<and> incoming \<noteq> None")
  case True
  then obtain ms where ms: "incoming = Some ms"
    by blast
  let ?inc = "iter_map (iter_order E) ms"
  from True ms assms have nd': "nodes nd' = merge_nodes ?inc (nodes nd)"
    by (auto simp: update_membership_ok)
  have "fmlookup (nodes nd) n = Some info \<or> valid_node_name n \<and> fmlookup ms n = Some info"
    if "fmlookup (nodes nd') n = Some info" for n info
    using merge_nodes_source [of ?inc "nodes nd" n info] that unfolding nd' mem_iter_map .
  moreover have "\<exists>new. fmlookup (nodes nd') n = Some new \<and> last_heartbeat old \<le> last_heartbeat new"
    if "fmlookup (nodes nd) n = Some old" for n old
    using merge_nodes_keeps [OF that] unfolding nd' .
  moreover have "fcard (fmdom (nodes nd')) \<le> max MAX_CLUSTER_SIZE (fcard (fmdom (nodes nd)))"
    unfolding nd' by (rule merge_nodes_size)
  ultimately show ?thesis
    using True ms by blast
next
  case False
  with assms have "nd' = nd" and "cluster_token_ok E req \<longrightarrow> code r = 400" and
      "\<not> cluster_token_ok E req \<longrightarrow> code r = 401"
    by (auto simp: update_membership_def split: if_splits)
  with False show ?thesis
    by auto
qed

theorem gossip_safe_witness:
  "snd (update_membership (sample_env ''n1'' 9) (cluster_header ''bad'') None sample_node) = sample_node"
proof -
  have "\<not> cluster_token_ok (sample_env ''n1'' 9) (cluster_header ''bad'')"
    by (simp add: cluster_secret_def sample_env_def)
  with gossip_safe [where E = "sample_env ''n1'' 9" and req = "cluster_header ''bad''" and incoming = None
      and nd = sample_node, OF prod.collapse [symmetric]]
  show ?thesis
    by blast
qed

text \<open>
  Two nodes that gossip to each other agree. If both merge the snapshot the other sent
  with the shared cluster secret, their tables are equal afterwards, provided the names are well
  formed, the members fit into the limit and no two entries of one name carry the same heartbeat
  time with different statuses.
\<close>

theorem gossip_exchange_agrees:
  assumes "GossipMembership b url_b ms_a sa \<in> set (gossip_membership E\<^sub>a shuffle_a nd_a)"
    and "GossipMembership a url_a ms_b sb \<in> set (gossip_membership E\<^sub>b shuffle_b nd_b)"
    and "cluster_secret E\<^sub>a = cluster_secret E\<^sub>b"
    and names: "\<forall>n. n |\<in>| fmdom (nodes nd_a) |\<union>| fmdom (nodes nd_b) \<longrightarrow> valid_node_name n"
    and room: "fcard (fmdom (nodes nd_a) |\<union>| fmdom (nodes nd_b)) \<le> MAX_CLUSTER_SIZE"
    and ties: "\<forall>n x y. fmlookup (nodes nd_a) n = Some x \<longrightarrow> fmlookup (nodes nd_b) n = Some y \<longrightarrow>
                last_heartbeat x = last_heartbeat y \<longrightarrow> x = y"
  shows "nodes (snd (update_membership E\<^sub>a (cluster_header sb) (Some ms_b) nd_a)) =
    nodes (snd (update_membership E\<^sub>b (cluster_header sa) (Some ms_a) nd_b))"
proof -
  from assms(1,2,3) have ms: "ms_a = nodes nd_a" "ms_b = nodes nd_b"
    and ok: "cluster_token_ok E\<^sub>a (cluster_header sb)" "cluster_token_ok E\<^sub>b (cluster_header sa)"
    by (auto simp: gossip_membership_def)
  let ?U = "fset (fmdom (nodes nd_a) |\<union>| fmdom (nodes nd_b))"
  have all: "fset (fmdom (nodes nd_a)) \<union> valid_names (nodes nd_b) = ?U"
    "fset (fmdom (nodes nd_b)) \<union> valid_names (nodes nd_a) = ?U"
    using names by (auto simp: valid_names_def)
  have card: "card ?U \<le> MAX_CLUSTER_SIZE"
    using room by (simp add: fcard.rep_eq)
  have entry: "newer_info (fmlookup (nodes nd_a) n) (if valid_node_name n then fmlookup (nodes nd_b) n else None) =
      newer_info (fmlookup (nodes nd_b) n) (if valid_node_name n then fmlookup (nodes nd_a) n else None)" for n
  proof (cases "valid_node_name n")
    case True
    with ties show ?thesis
      by (auto simp: newer_info_def not_less split: option.splits)
  next
    case False
    with names have "fmlookup (nodes nd_a) n = None" "fmlookup (nodes nd_b) n = None"
      by (auto simp: fmdom_notD)
    then show ?thesis
      by (simp add: newer_info_def)
  qed
  show ?thesis
    unfolding ms update_membership_ok [OF ok(1)] update_membership_ok [OF ok(2)]
    using entry card by (auto intro!: fmap_ext simp: merge_snapshot_lookup all)
qed

theorem gossip_exchange_agrees_witness:
  "nodes (snd (update_membership (sample_env ''n1'' 9) (cluster_header ''cs'') (Some (nodes sample_node)) sample_node)) =
   nodes (snd (update_membership (sample_env ''n2'' 9) (cluster_header ''cs'') (Some (nodes sample_node)) sample_node))"
proof (rule gossip_exchange_agrees)
  show "GossipMembership ''n2'' ''http://n2/update_membership'' (nodes sample_node) ''cs'' \<in>
      set (gossip_membership (sample_env ''n1'' 9) sorted_order sample_node)"
    by code_simp
  show "GossipMembership ''n1'' ''http://n1/update_membership'' (nodes sample_node) ''cs'' \<in>
      set (gossip_membership (sample_env ''n2'' 9) sorted_order sample_node)"
    by code_simp
qed (auto simp: cluster_secret_def sample_env_def sample_node_def valid_node_name_def fcard_finsert_if fcard_fempty)

text \<open>
  A suspicion does not travel. A failed probe changes the status of an entry and not its
  heartbeat time, so a peer that knows the node with the same heartbeat time keeps its own
  status when it merges the prober's table: after a failed probe the two tables stay different.
\<close>

theorem suspicion_not_gossiped:
  assumes "fmlookup (nodes nd_a) n = Some \<lparr>status = Active, last_heartbeat = h\<rparr>"
    and "fmlookup (nodes nd_b) n = Some \<lparr>status = Active, last_heartbeat = h\<rparr>"
    and "cluster_token_ok E req"
  shows "let a' = record_probe t thr False n (nodes nd_a);
             b' = nodes (snd (update_membership E req (Some a') nd_b))
         in fmlookup a' n = Some \<lparr>status = Suspect, last_heartbeat = h\<rparr> \<and>
            fmlookup b' n = Some \<lparr>status = Active, last_heartbeat = h\<rparr>"
proof -
  let ?a = "record_probe t thr False n (nodes nd_a)"
  have a: "fmlookup ?a n = Some \<lparr>status = Suspect, last_heartbeat = h\<rparr>"
    using assms(1) by (simp add: record_probe_lookup update_node_status_def)
  let ?inc = "iter_map (iter_order E) ?a"
  obtain new where new: "fmlookup (merge_nodes ?inc (nodes nd_b)) n = Some new"
    using merge_nodes_keeps [OF assms(2)] by blast
  have "new = \<lparr>status = Active, last_heartbeat = h\<rparr>"
    using merge_nodes_tie [OF assms(2)] a new by (fastforce simp: mem_iter_map)
  with a new show ?thesis
    by (simp add: update_membership_ok [OF assms(3)] Let_def)
qed

theorem suspicion_not_gossiped_witness:
  "fmlookup (nodes (snd (update_membership (sample_env ''n1'' 9) (cluster_header ''cs'')
      (Some (record_probe 9 10 False ''n2'' (nodes sample_node))) sample_node))) ''n2'' =
   Some \<lparr>status = Active, last_heartbeat = 1\<rparr>"
proof -
  have "fmlookup (nodes sample_node) ''n2'' = Some \<lparr>status = Active, last_heartbeat = 1\<rparr>"
    by (simp add: sample_node_def)
  moreover have "cluster_token_ok (sample_env ''n1'' 9) (cluster_header ''cs'')"
    by (simp add: cluster_secret_def sample_env_def)
  ultimately show ?thesis
    using suspicion_not_gossiped [of sample_node "''n2''" 1 sample_node] unfolding Let_def by blast
qed

lemma merge_nodes_other: "n \<notin> fst ` set xs \<Longrightarrow> fmlookup (merge_nodes xs ns) n = fmlookup ns n"
  by (induction xs ns rule: merge_nodes.induct) (auto simp: merge_node_lookup)

lemma merge_nodes_adopts:
  assumes "(n, info) \<in> set xs" and "distinct (map fst xs)" and "fmlookup ns n = Some old"
    and "last_heartbeat old < last_heartbeat info" and "valid_node_name n"
  shows "fmlookup (merge_nodes xs ns) n = Some info"
  using assms
proof (induction xs ns rule: merge_nodes.induct)
  case (2 m i incoming ns)
  show ?case
  proof (cases "m = n")
    case True
    with 2(2,3) have "i = info" and "n \<notin> fst ` set incoming"
      by (auto simp: image_iff)
    with 2(4-6) True show ?thesis
      by (simp add: merge_nodes_other merge_node_def)
  next
    case False
    with 2(4) have "fmlookup (merge_node m i ns) n = Some old"
      by (simp add: merge_node_lookup)
    with 2 False show ?thesis
      by simp
  qed
qed simp

lemma gossip_targets_all:
  assumes "card {m. m \<noteq> current_addr E \<and> (\<exists>i. fmlookup ns m = Some i \<and> status i = Active)} \<le> 3"
  shows "set (gossip_targets E shuffle ns) =
    {m. m \<noteq> current_addr E \<and> (\<exists>i. fmlookup ns m = Some i \<and> status i = Active)}"
proof -
  let ?P = "\<lambda>m. m \<noteq> current_addr E \<and> (case fmlookup ns m of Some i \<Rightarrow> status i = Active | None \<Rightarrow> False)"
  let ?xs = "filter ?P (map fst (iter_map (iter_order E) ns))"
  have "m \<in> set (map fst (iter_map (iter_order E) ns)) \<longleftrightarrow> (\<exists>i. fmlookup ns m = Some i)" for m
    by (simp add: image_iff) (metis mem_iter_map fst_conv prod.collapse)
  then have keys: "set ?xs = {m. m \<noteq> current_addr E \<and> (\<exists>i. fmlookup ns m = Some i \<and> status i = Active)}"
    unfolding set_filter by (auto split: option.splits simp del: set_map)
  have "length ?xs = card (set ?xs)"
    by (rule distinct_card [symmetric]) (intro distinct_filter distinct_iter_map)
  with assms keys have "take 3 (apply_order shuffle ?xs) = apply_order shuffle ?xs"
    by simp
  then show ?thesis
    by (simp only: gossip_targets_def set_apply_order keys)
qed

lemma nodes_to_check_all:
  assumes "card {m. m \<noteq> current_addr E \<and> (\<exists>i. fmlookup ns m = Some i \<and> status i \<noteq> Leaving)} \<le> 3"
  shows "set (nodes_to_check E shuffle ns) =
    {m. m \<noteq> current_addr E \<and> (\<exists>i. fmlookup ns m = Some i \<and> status i \<noteq> Leaving)}"
proof -
  let ?P = "\<lambda>(n, info). n \<noteq> current_addr E \<and> (status info = Active \<or> status info = Suspect \<or> status info = Down)"
  let ?xs = "map fst (filter ?P (iter_map (iter_order E) ns))"
  have states: "st = Active \<or> st = Suspect \<or> st = Down \<longleftrightarrow> st \<noteq> Leaving" for st
    by (cases st) auto
  have keys: "set ?xs = {m. m \<noteq> current_addr E \<and> (\<exists>i. fmlookup ns m = Some i \<and> status i \<noteq> Leaving)}"
    by (force simp: states mem_iter_map)
  have "length ?xs = card (set ?xs)"
    by (rule distinct_card [symmetric]) (intro distinct_filter_keys distinct_iter_map)
  with assms keys have "take 3 (apply_order shuffle ?xs) = apply_order shuffle ?xs"
    by simp
  then show ?thesis
    by (simp only: nodes_to_check_def set_apply_order keys)
qed

lemma health_leaving:
  assumes "fmlookup ns m = Some i" and "status i = Leaving"
  shows "fmlookup (check_targets at thr (nodes_to_check E shuffle ns) ns) m = Some i"
  using assms mem_nodes_to_check [of m E shuffle ns] by (subst check_targets_lookup_other) auto



text \<open>
  The join endpoint has no size limit. With the cluster secret, any unknown name is admitted
  as an active member, also by a node whose table is already at the limit that the gossip
  endpoint enforces; a known name and a wrong secret change nothing.
\<close>

theorem join_unbounded:
  "join_cluster E permit n secret nd = (r, nd', gossip) \<Longrightarrow>
   (secret \<noteq> cluster_secret E \<longrightarrow> nd' = nd \<and> code r = 401) \<and>
   (secret = cluster_secret E \<longrightarrow>
      body r = NodesJson (nodes nd') \<and> n |\<in>| fmdom (nodes nd') \<and>
      (n |\<in>| fmdom (nodes nd) \<longrightarrow> nd' = nd) \<and>
      (n |\<notin>| fmdom (nodes nd) \<longrightarrow>
         fcard (fmdom (nodes nd')) = fcard (fmdom (nodes nd)) + 1 \<and>
         fmlookup (nodes nd') n = Some \<lparr>status = Active, last_heartbeat = now E\<rparr>))"
  by (auto simp: join_cluster_def Let_def fmdomI fmdom_notD fcard_finsert_disjoint split: if_splits)

theorem join_unbounded_witness:
  "fcard (fmdom (nodes (fst (snd (join_cluster (sample_env ''n1'' 9) True ''a b'' ''cs'' sample_node))))) =
   fcard (fmdom (nodes sample_node)) + 1"
  using join_unbounded [where E = "sample_env ''n1'' 9" and permit = True and n = "''a b''" and secret = "''cs''"
      and nd = sample_node and r = "fst (join_cluster (sample_env ''n1'' 9) True ''a b'' ''cs'' sample_node)"
      and nd' = "fst (snd (join_cluster (sample_env ''n1'' 9) True ''a b'' ''cs'' sample_node))"
      and gossip = "snd (snd (join_cluster (sample_env ''n1'' 9) True ''a b'' ''cs'' sample_node))"]
  by (simp add: cluster_secret_def sample_env_def sample_node_def)

text \<open>
  Rendered addresses do not depend on how a peer was configured. A host name may be given
  bare, with either scheme and with trailing slashes, and the endpoint with or without a leading
  slash: the address is the same.
\<close>

theorem build_url_normalises:
  assumes "host \<noteq> []" and "CHR ''/'' \<notin> set host" and "last host \<noteq> CHR '':''"
    and "endpoint \<noteq> []" and "hd endpoint \<noteq> CHR ''/''"
    and "prefix \<in> {'''', ''http://'', ''https://''}"
  shows "build_url E (prefix @ host @ replicate k (CHR ''/'')) (replicate j (CHR ''/'') @ endpoint) =
    get_scheme E @ ''://'' @ host @ ''/'' @ endpoint"
proof -
  let ?h = "host @ replicate k (CHR ''/'')"
  have h: "\<not> starts_with ''http://'' ?h" "\<not> starts_with ''https://'' ?h"
    using starts_with_slashes [of "''http''" host k] starts_with_slashes [of "''https''" host k] assms(2,3)
    by auto
  have tail: "dropWhile (\<lambda>x. x = CHR ''/'') (rev host) = rev host"
    using assms(1,2) by (cases host rule: rev_cases) auto
  have "trim_start_matches ''https://'' (trim_start_matches ''http://'' (prefix @ ?h)) = ?h"
    using assms(6) h trim_start_matches_prefix [of "''http://''" ?h] trim_start_matches_prefix [of "''https://''" ?h]
      trim_start_matches_other [of "''http://''" "''https://'' @ ?h"]
    by (auto simp: trim_start_matches_other starts_with_def)
  moreover have "trim_end_matches_char (CHR ''/'') ?h = host"
    using tail by (simp add: trim_end_matches_char_def dropWhile_append)
  moreover have "trim_start_matches_char (CHR ''/'') (replicate j (CHR ''/'') @ endpoint) = endpoint"
    using assms(4,5) by (cases endpoint) (simp_all add: trim_start_matches_char_def dropWhile_append)
  ultimately show ?thesis
    by (simp add: build_url_def Let_def)
qed

theorem build_url_normalises_witness:
  "build_url (sample_env ''n1'' 9) ''https://n2:80//'' ''/heartbeat'' = ''http://n2:80/heartbeat''"
proof -
  have "get_scheme (sample_env ''n1'' 9) = ''http''"
    by code_simp
  then show ?thesis
    using build_url_normalises [of "''n2:80''" "''heartbeat''" "''https://''" "sample_env ''n1'' 9" 2 1]
    by (simp add: numeral_2_eq_2)
qed

end
