(* ===== verification/Auth.thy ===== *)
theory Auth
  imports Engine
begin

text \<open>
  User accounts, \<^verbatim>\<open>security/authentication.rs\<close>: the handler \<^verbatim>\<open>access\<close>, which registers a user,
  logs one in, or stores an account another node registered. Accounts are records of the table
  \<^verbatim>\<open>auth\<close> of the ordinary store.
\<close>

section \<open>The access handler\<close>

text \<open>
  The request body is read as a bincode or a JSON \<^verbatim>\<open>AccessToken\<close>; the record holds what either
  decoder finds in it.
\<close>

record access_body =
  bincode_secret :: "string option"
  json_secret :: "string option"

definition secret_map :: "('v, 'c) env \<Rightarrow> string \<Rightarrow> (string, 'v) fmap" where
  "secret_map E s = fmupd ''secret'' (json_str E s) fmempty"

definition stored_secret :: "('v, 'c) env \<Rightarrow> 'v versioned_value \<Rightarrow> string option" where
  "stored_secret E v = Option.bind (fmlookup (vvalue v) ''secret'') (as_str E)"

definition access_internal ::
    "('v, 'c) env \<Rightarrow> http_request \<Rightarrow> string \<Rightarrow> access_body \<Rightarrow> ('v, 'c) handler" where
  "access_internal E req username b nd =
     (case bincode_secret b of
        None \<Rightarrow> (respond 400 NoBody, nd, [])
      | Some provided_secret \<Rightarrow>
          (let user_header = (case Option.bind (fmlookup req ''User'') to_str of
                                Some u \<Rightarrow> u | None \<Rightarrow> username);
               new_rec = vv_new (now E) (secret_map E provided_secret) user_header (current_addr E);
               nd1 = nd\<lparr>store := store_insert ''auth'' username new_rec
                                  (touch_table ''auth'' (store nd))\<rparr>
           in (respond 201 (StatusJson ''User replicated''),
               notify_node E ''auth'' username (Updated new_rec) nd1, [])))"

text \<open>The registration or password check: an error response, or whether the user is new and its record.\<close>

definition check_account ::
    "('v, 'c) env \<Rightarrow> string \<Rightarrow> string \<Rightarrow> 'v kv_store \<Rightarrow> 'v response + (bool \<times> 'v versioned_value)" where
  "check_account E username provided_secret s =
     (case store_get ''auth'' username s of
        None \<Rightarrow> Inr (True, vv_new (now E) (secret_map E (sha256_hex E provided_secret)) username (current_addr E))
      | Some user_record \<Rightarrow>
          (case stored_secret E user_record of
             None \<Rightarrow> Inl (respond 500 (ErrorJson ''Corrupt user record''))
           | Some stored_hash \<Rightarrow>
               if stored_hash \<noteq> sha256_hex E provided_secret
               then Inl (respond 401 (ErrorJson ''Invalid credentials''))
               else Inr (False, user_record)))"

definition token_expiry :: "('v, 'c) env \<Rightarrow> u64" where
  "token_expiry E = of_int (utc_seconds E + 24 * 3600)"

definition issue_token :: "('v, 'c) env \<Rightarrow> string \<Rightarrow> bool \<Rightarrow> 'v response" where
  "issue_token E username is_new_user =
     (case jwt_encode E (jwt_secret E) \<lparr>sub = username, exp = token_expiry E, admin = None\<rparr> of
        None \<Rightarrow> respond 500 (ErrorJson ''Token creation failed'')
      | Some token \<Rightarrow>
          if is_new_user then respond 201 (TokenJson token (Some ''User created''))
          else respond 200 (TokenJson token None))"

definition access ::
    "('v, 'c) env \<Rightarrow> http_request \<Rightarrow> string \<Rightarrow> access_body \<Rightarrow> ('v, 'c) handler" where
  "access E req username b nd =
     (if internal_request E req then access_internal E req username b nd
      else case json_secret b of
        None \<Rightarrow> (respond 400 NoBody, nd, [])
      | Some provided_secret \<Rightarrow>
          (let nd1 = nd\<lparr>store := touch_table ''auth'' (store nd)\<rparr> in
           case check_account E username provided_secret (store nd1) of
             Inl resp \<Rightarrow> (resp, nd1, [])
           | Inr (False, _) \<Rightarrow> (issue_token E username False, nd1, [])
           | Inr (True, new_value) \<Rightarrow>
               (let nd2 = commit_write E ''auth'' username new_value nd1;
                    targets = replication_targets E username nd2
                in case stored_secret E new_value of
                     None \<Rightarrow> (respond 0 NoResponse, nd2, [])
                   | Some hashed_secret \<Rightarrow>
                       (issue_token E username True, nd2,
                        map (\<lambda>tgt. ReplicateUser tgt username hashed_secret (cluster_secret E))
                          (filter (\<lambda>tgt. tgt \<noteq> current_addr E) targets)))))"

text \<open>The request a \<^verbatim>\<open>ReplicateUser\<close> message turns into at its target.\<close>

definition replicate_user_request :: "string \<Rightarrow> string \<Rightarrow> http_request" where
  "replicate_user_request username secret =
     fmupd ''User'' (HText username) (internal_header secret)"

definition deliver_user ::
    "('v, 'c) env \<Rightarrow> string \<Rightarrow> string \<Rightarrow> string \<Rightarrow> ('v, 'c) node \<Rightarrow> ('v, 'c) node" where
  "deliver_user E username hashed secret nd =
     fst (snd (access E (replicate_user_request username secret) username
       \<lparr>bincode_secret = Some hashed, json_secret = None\<rparr> nd))"

section \<open>What the handler relies on\<close>

text \<open>
  Documented behaviour of the libraries: a JSON string reads back as itself; a token that was
  issued verifies, under the secret it was signed with and until it expires, to the payload it
  was issued for; and a token is text without blanks, so that the \<^verbatim>\<open>Bearer\<close> header gives it back.
\<close>

definition json_strings :: "('v, 'c) env \<Rightarrow> bool" where
  "json_strings E \<longleftrightarrow> (\<forall>s. as_str E (json_str E s) = Some s)"

definition jwt_sound :: "('v, 'c) env \<Rightarrow> bool" where
  "jwt_sound E \<longleftrightarrow> (\<forall>secret p token t. jwt_encode E secret p = Some token \<longrightarrow> t \<le> uint (exp p) \<longrightarrow>
      jwt_verify E t secret token = Some p \<and> bearer_token (''Bearer '' @ token) = Some token)"

lemma stored_secret_new [simp]:
  "json_strings E \<Longrightarrow> stored_secret E (vv_new t (secret_map E' h) u n) = as_str E (json_str E' h)"
  by (simp add: stored_secret_def secret_map_def vv_new_def)

section \<open>Lemmas on accounts\<close>

lemma sample_json_strings: "json_strings (sample_env n t)"
  by (simp add: json_strings_def sample_env_def)

lemma sample_jwt_sound: "jwt_sound (sample_env n t)"
  by (auto simp: jwt_sound_def sample_env_def sample_jwt_encode_def Let_def
      split: if_splits option.splits bool.splits intro!: jwt_payload.equality)

lemma plain_request [simp]: "\<not> internal_request E fmempty"
  by (simp add: internal_request_def)

text \<open>The account check on a record that holds a hash.\<close>

lemma access_existing:
  assumes "\<not> internal_request E req" and "json_secret b = Some s"
    and "store_get ''auth'' u (store nd) = Some v" and "stored_secret E v = Some h"
  shows "access E req u b nd =
    (if h = sha256_hex E s then issue_token E u False else respond 401 (ErrorJson ''Invalid credentials''),
     nd\<lparr>store := touch_table ''auth'' (store nd)\<rparr>, [])"
  using assms by (simp add: access_def check_account_def Let_def store_simps)

lemma access_new:
  assumes "\<not> internal_request E req" and "json_secret b = Some s" and "json_strings E"
    and "store_get ''auth'' u (store nd) = None"
  shows "access E req u b nd =
    (let v = vv_new (now E) (secret_map E (sha256_hex E s)) u (current_addr E);
         nd' = commit_write E ''auth'' u v (nd\<lparr>store := touch_table ''auth'' (store nd)\<rparr>)
     in (issue_token E u True, nd',
         map (\<lambda>tgt. ReplicateUser tgt u (sha256_hex E s) (cluster_secret E))
           (filter (\<lambda>tgt. tgt \<noteq> current_addr E) (replication_targets E u nd'))))"
  using assms by (simp add: access_def check_account_def Let_def store_simps json_strings_def)

lemma deliver_user_store:
  "store_get t k (store (deliver_user E u h secret nd)) =
     (if secret = cluster_secret E \<and> t = ''auth'' \<and> k = u
      then Some (vv_new (now E) (secret_map E h) u (current_addr E)) else store_get t k (store nd))"
  by (simp add: deliver_user_def access_def access_internal_def replicate_user_request_def
      internal_request_def internal_header_def Let_def store_simps)

text \<open>A token issued with a 24-hour expiry verifies to its payload.\<close>

lemma issued_payload:
  assumes "jwt_sound E" and "jwt_verify E' = jwt_verify E" and "jwt_secret E' = jwt_secret E"
    and "0 \<le> utc_seconds E" and "utc_seconds E + 86400 < 2 ^ 64" and "utc_seconds E' \<le> utc_seconds E + 86400"
    and "jwt_encode E (jwt_secret E) \<lparr>sub = u, exp = token_expiry E, admin = a\<rparr> = Some token"
  shows "jwt_verify E' (utc_seconds E') (jwt_secret E') token = Some \<lparr>sub = u, exp = token_expiry E, admin = a\<rparr> \<and>
    bearer_token (''Bearer '' @ token) = Some token"
proof -
  let ?p = "\<lparr>sub = u, exp = token_expiry E, admin = a\<rparr>"
  have "uint (exp ?p) = utc_seconds E + 86400"
    using assms(4,5) unfolding token_expiry_def by (simp add: unsigned_of_int take_bit_int_eq_self del: of_int_add)
  with assms(1-3,6,7) show ?thesis
    unfolding jwt_sound_def by metis
qed

section \<open>Properties of accounts\<close>

text \<open>
  C29: an issued token works, and only as a user token. The token of a successful access
  authenticates its bearer as that user on every node with the same JWT secret until it
  expires after 24 hours, and it never passes the administrator check.
\<close>

theorem issued_token_authenticates:
  assumes "jwt_sound E" and "jwt_verify E' = jwt_verify E" and "jwt_secret E' = jwt_secret E"
    and "0 \<le> utc_seconds E" and "utc_seconds E + 86400 < 2 ^ 64" and "utc_seconds E' \<le> utc_seconds E + 86400"
    and "body (issue_token E u new) = TokenJson token st"
  shows "extract_user_from_token E' (bearer token) = Inr u \<and> \<not> validate_admin_token E' (bearer token)"
proof -
  from assms(7) have "jwt_encode E (jwt_secret E) \<lparr>sub = u, exp = token_expiry E, admin = None\<rparr> = Some token"
    by (auto simp: issue_token_def split: option.splits if_splits)
  from issued_payload [OF assms(1-6) this] show ?thesis
    by (simp add: extract_user_from_token_def validate_admin_token_def bearer_def decode_claims_def
        decode_admin_claims_def)
qed

theorem issued_token_authenticates_witness:
  "extract_user_from_token (sample_env ''n2'' 70) (bearer ''Ubob'') = Inr ''bob''"
proof -
  have "body (issue_token (sample_env ''n1'' 9) ''bob'' True) = TokenJson ''Ubob'' (Some ''User created'')"
    by code_simp
  from issued_token_authenticates [OF sample_jwt_sound _ _ _ _ _ this, of "sample_env ''n2'' 70"]
  show ?thesis
    by (simp add: sample_env_def)
qed

text \<open>
  C30: a registered account works on the nodes it was replicated to. Each message a
  registration sends, delivered to a node with the same cluster secret, makes that node
  accept exactly the passwords with the registered hash.
\<close>

theorem replicated_account_works:
  assumes "\<not> internal_request E req" and "json_strings E" and "store_get ''auth'' u (store nd) = None"
    and "access E req u \<lparr>bincode_secret = x, json_secret = Some s\<rparr> nd = (r, nd1, out)"
    and "ReplicateUser tgt u' h secret \<in> set out"
    and "cluster_secret E' = cluster_secret E" and "json_strings E'" and "sha256_hex E' = sha256_hex E"
    and "\<not> internal_request E' req'"
  shows "u' = u \<and> tgt \<noteq> current_addr E \<and>
    fst (access E' req' u \<lparr>bincode_secret = y, json_secret = Some s'\<rparr> (deliver_user E' u' h secret peer)) =
      (if sha256_hex E s' = sha256_hex E s then issue_token E' u False
       else respond 401 (ErrorJson ''Invalid credentials''))"
proof -
  from access_new [OF assms(1) _ assms(2,3), of "\<lparr>bincode_secret = x, json_secret = Some s\<rparr>" s] assms(4,5)
  have msg: "u' = u" "h = sha256_hex E s" "secret = cluster_secret E" "tgt \<noteq> current_addr E"
    by (auto simp: Let_def)
  let ?v = "vv_new (now E') (secret_map E' h) u (current_addr E')"
  have "store_get ''auth'' u (store (deliver_user E' u' h secret peer)) = Some ?v"
    using msg assms(6) by (simp add: deliver_user_store)
  moreover have "stored_secret E' ?v = Some h"
    using assms(7) by (simp add: json_strings_def)
  ultimately show ?thesis
    using access_existing [OF assms(9), of "\<lparr>bincode_secret = y, json_secret = Some s'\<rparr>" s' u] msg assms(8)
    by auto
qed

theorem replicated_account_works_witness:
  "fst (access (sample_env ''n2'' 30) fmempty ''bob'' \<lparr>bincode_secret = None, json_secret = Some ''pw''\<rparr>
      (deliver_user (sample_env ''n2'' 30) ''bob'' ''hpw'' ''cs'' sample_node)) =
   issue_token (sample_env ''n2'' 30) ''bob'' False"
proof -
  let ?run = "access (sample_env ''n1'' 9) fmempty ''bob'' \<lparr>bincode_secret = None, json_secret = Some ''pw''\<rparr> sample_node"
  have none: "store_get ''auth'' ''bob'' (store sample_node) = None"
    by code_simp
  have sent: "ReplicateUser ''n2'' ''bob'' ''hpw'' ''cs'' \<in> set (snd (snd ?run))"
    by code_simp
  have env: "cluster_secret (sample_env ''n2'' 30) = cluster_secret (sample_env ''n1'' 9)"
    "sha256_hex (sample_env ''n2'' 30) = sha256_hex (sample_env ''n1'' 9)"
    by (simp_all add: sample_env_def cluster_secret_def)
  from replicated_account_works [OF plain_request sample_json_strings none triple_collapse sent env(1)
      sample_json_strings env(2) plain_request, of None "''pw''" sample_node]
  show ?thesis
    by simp
qed

text \<open>
  Accounts can be seized before they exist. The table of accounts is an ordinary table: any
  authenticated user may PUT the record of a name that is not registered yet, with the hash
  of a password of its choice, and that password then logs in under the other's name.
\<close>

theorem unregistered_name_seized:
  assumes "extract_user_from_token E req = Inr attacker" and "store_get ''auth'' victim (store nd) = None"
    and "json_strings E" and "\<not> internal_request E req'"
    and "put_value E req (''auth'', victim) (secret_map E (sha256_hex E s)) nd = (r, nd1, out)"
  shows "code r = 201 \<and>
    fst (access E req' victim \<lparr>bincode_secret = y, json_secret = Some s\<rparr> nd1) = issue_token E victim False"
proof -
  let ?v = "vv_new (now E) (secret_map E (sha256_hex E s)) attacker (current_addr E)"
  have "store_get ''auth'' victim (store nd1) = Some ?v"
    using put_value_store [OF assms(5)] assms(1,2) by (simp add: put_cell_def)
  moreover have "stored_secret E ?v = Some (sha256_hex E s)"
    using assms(3) by (simp add: json_strings_def)
  moreover have "code r = 201"
    using assms(1,2,5) by (auto simp: put_value_def Let_def store_simps)
  ultimately show ?thesis
    using access_existing [OF assms(4), of "\<lparr>bincode_secret = y, json_secret = Some s\<rparr>" s victim] by simp
qed

theorem unregistered_name_seized_witness:
  "let E = sample_env ''n1'' 9;
       nd1 = fst (snd (put_value E (bearer ''Umallory'') (''auth'', ''bob'') (secret_map E ''hx'') sample_node))
   in fst (access E fmempty ''bob'' \<lparr>bincode_secret = None, json_secret = Some ''x''\<rparr> nd1) = issue_token E ''bob'' False"
proof -
  let ?E = "sample_env ''n1'' 9"
  have none: "store_get ''auth'' ''bob'' (store sample_node) = None"
    by code_simp
  have user: "extract_user_from_token ?E (bearer ''Umallory'') = Inr ''mallory''"
    by code_simp
  have "sha256_hex ?E ''x'' = ''hx''"
    by (simp add: sample_env_def)
  with unregistered_name_seized [OF user none sample_json_strings plain_request triple_collapse, of "''x''" None]
  show ?thesis
    by (simp add: Let_def)
qed

end
