(* ===== verification/Convergence.thy ===== *)
theory Convergence
  imports Engine
begin

text \<open>
  Replication between nodes: sequences of internal writes received by a replica, sequences of
  client writes processed by a coordinating node, and when replicas agree. The internal write
  handler is a last-writer-wins register per key (\<open>lww_register\<close>), so replicas that received
  the same versions agree whenever timestamps and clocks agree; the theory also shows the runs in
  which they do not.
\<close>

section \<open>Receiving replicated versions\<close>

text \<open>One delivery of a replicated record by the handler \<^verbatim>\<open>put_value_internal\<close>.\<close>

definition deliver_put ::
    "('v, 'c) env \<Rightarrow> string \<Rightarrow> string \<Rightarrow> string \<Rightarrow> 'v versioned_value \<Rightarrow> ('v, 'c) node \<Rightarrow> ('v, 'c) node" where
  "deliver_put E secret t k v nd =
     fst (snd (put_value_internal E (internal_header secret) (t, k) v nd))"

text \<open>
  A sequence of deliveries for one key; every delivery happens in an environment of its own
  (time passes) and carries the secret of its sender.
\<close>

fun receive_all ::
    "string \<Rightarrow> string \<Rightarrow> (('v, 'c) env \<times> string \<times> 'v versioned_value) list \<Rightarrow> ('v, 'c) node \<Rightarrow>
     ('v, 'c) node" where
  "receive_all t k [] nd = nd"
| "receive_all t k ((E, secret, v) # ds) nd = receive_all t k ds (deliver_put E secret t k v nd)"

definition authentic :: "(('v, 'c) env \<times> string \<times> 'v versioned_value) list \<Rightarrow> bool" where
  "authentic ds \<longleftrightarrow> (\<forall>(E, secret, v) \<in> set ds. secret = cluster_secret E)"

definition versions_of :: "(('v, 'c) env \<times> string \<times> 'v versioned_value) list \<Rightarrow> 'v versioned_value list" where
  "versions_of ds = map (\<lambda>(E, secret, v). v) ds"

lemma provided_internal_header [simp]: "provided_secret_of (internal_header s) = s"
  by (simp add: provided_secret_of_def internal_header_def)

lemma store_get_deliver:
  "store_get t' k' (store (deliver_put E secret t k v nd)) =
     (if secret = cluster_secret E \<and> t' = t \<and> k' = k
      then merge_cell (store_get t k (store nd)) v else store_get t' k' (store nd))"
proof -
  obtain resp nd' out where "put_value_internal E (internal_header secret) (t, k) v nd = (resp, nd', out)"
    by (metis prod_cases3)
  from put_value_internal_store [OF this] this show ?thesis
    by (simp add: deliver_put_def)
qed

lemma receive_all_cell:
  "authentic ds \<Longrightarrow>
   store_get t k (store (receive_all t k ds nd)) =
     foldl merge_cell (store_get t k (store nd)) (versions_of ds)"
  by (induction t k ds nd rule: receive_all.induct)
    (auto simp: store_get_deliver authentic_def versions_of_def)

lemma receive_all_other:
  "(t', k') \<noteq> (t, k) \<Longrightarrow> store_get t' k' (store (receive_all t k ds nd)) = store_get t' k' (store nd)"
  by (induction t k ds nd rule: receive_all.induct) (auto simp: store_get_deliver)

lemma foldl_merge_Some: "foldl merge_cell (Some e) vs = foldl merge_cell None (e # vs)"
  by (simp add: merge_cell_def)

text \<open>The versions a replica has seen of a key: what it held, and what it received.\<close>

definition seen_versions :: "'v versioned_value option \<Rightarrow> 'v versioned_value list \<Rightarrow> 'v versioned_value set" where
  "seen_versions cell vs = set_option cell \<union> set vs"

lemma seen_converges:
  assumes "clock_synchronous (seen_versions c1 vs1)" and "seen_versions c2 vs2 = seen_versions c1 vs1"
  shows "foldl merge_cell c1 vs1 = foldl merge_cell c2 vs2"
proof -
  define l1 where "l1 = (case c1 of None \<Rightarrow> vs1 | Some e \<Rightarrow> e # vs1)"
  define l2 where "l2 = (case c2 of None \<Rightarrow> vs2 | Some e \<Rightarrow> e # vs2)"
  have "set l1 = seen_versions c1 vs1" and "set l2 = seen_versions c2 vs2"
    and "foldl merge_cell c1 vs1 = foldl merge_cell None l1"
    and "foldl merge_cell c2 vs2 = foldl merge_cell None l2"
    by (auto simp: l1_def l2_def seen_versions_def merge_cell_def split: option.splits)
  with assms lww.receive_all_converges [of l1 l2] show ?thesis
    by simp
qed

section \<open>A coordinating node\<close>

text \<open>Client writes to one key processed by one node, and the versions it answered with.\<close>

datatype 'v client_write = Put "(string, 'v) fmap" | Patch "(string, 'v) fmap"

fun serve_write ::
    "('v, 'c) env \<Rightarrow> http_request \<Rightarrow> string \<times> string \<Rightarrow> 'v client_write \<Rightarrow> ('v, 'c) handler" where
  "serve_write E req path (Put val) nd = put_value E req path val nd"
| "serve_write E req path (Patch upd) nd = patch_value E req path upd nd"

definition written_version :: "'v response \<Rightarrow> 'v versioned_value list" where
  "written_version r = (case body r of RecordJson v \<Rightarrow> [v] | _ \<Rightarrow> [])"

fun serve_writes ::
    "string \<times> string \<Rightarrow> (('v, 'c) env \<times> http_request \<times> 'v client_write) list \<Rightarrow> ('v, 'c) node \<Rightarrow>
     'v versioned_value list \<times> ('v, 'c) node" where
  "serve_writes path [] nd = ([], nd)"
| "serve_writes path ((E, req, w) # ws) nd =
     (let (resp, nd1, out) = serve_write E req path w nd;
          (vs, nd2) = serve_writes path ws nd1
      in (written_version resp @ vs, nd2))"

text \<open>
  A write either answers with a version, which is then stored, dominates what was there and
  carries the node's current time, or it changes no record.
\<close>

lemma serve_write_step:
  assumes "serve_write E req (t, k) w nd = (resp, nd', out)"
    and "\<And>old. store_get t k (store nd) = Some old \<Longrightarrow> clk old (current_addr E) \<noteq> u64_max"
  shows "written_version resp = [] \<and> store_get t k (store nd') = store_get t k (store nd) \<or>
    (\<exists>v. written_version resp = [v] \<and> store_get t k (store nd') = Some v \<and> timestamp v = now E \<and>
       (case store_get t k (store nd) of
          None \<Rightarrow> clk v = (\<lambda>n. if n = current_addr E then 1 else 0)
        | Some old \<Rightarrow> dominates v old \<and>
            clk v = (clk old)(current_addr E := clk old (current_addr E) + 1)))"
proof (cases "extract_user_from_token E req")
  case (Inl r)
  from Inl have "\<exists>e. r = respond 401 (ErrorJson e)"
    by (auto simp: extract_user_from_token_def split: option.splits)
  with assms(1) Inl show ?thesis
    by (cases w) (auto simp: put_value_def patch_value_def written_version_def)
next
  case (Inr user)
  show ?thesis
  proof (cases "store_get t k (store nd)")
    case None
    with assms(1) Inr show ?thesis
      by (cases w) (auto simp: put_value_def patch_value_def written_version_def Let_def store_simps
          fun_eq_iff clk_simps)
  next
    case (Some old)
    have upd: "dominates (vv_update (now E) val (current_addr E) old) old"
      and pat: "dominates (vv_patch (now E) f val (current_addr E) old) old" for val f
      using assms(2) [OF Some]
      by (auto intro!: dominates_bump [where m = "current_addr E"] simp: clk_simps)
    from assms(1) Inr Some upd pat show ?thesis
      by (cases w) (auto simp: put_value_def patch_value_def written_version_def Let_def store_simps
          fun_eq_iff clk_simps split: if_splits)
  qed
qed

text \<open>
  Conditions on the writes of a coordinator: one address, a clock that does not run
  backwards, and fewer writes than the counter can count.
\<close>

definition same_coordinator ::
    "string \<Rightarrow> (('v, 'c) env \<times> http_request \<times> 'v client_write) list \<Rightarrow> bool" where
  "same_coordinator n ws \<longleftrightarrow> (\<forall>(E, req, w) \<in> set ws. current_addr E = n)"

definition monotone_clock :: "(('v, 'c) env \<times> http_request \<times> 'v client_write) list \<Rightarrow> bool" where
  "monotone_clock ws \<longleftrightarrow> sorted (map (\<lambda>(E, req, w). now E) ws)"

definition successor :: "'v versioned_value \<Rightarrow> 'v versioned_value \<Rightarrow> bool" where
  "successor a b \<longleftrightarrow> dominates b a \<and> timestamp a \<le> timestamp b"

definition cell_list :: "'a option \<Rightarrow> 'a list" where
  "cell_list c = (case c of None \<Rightarrow> [] | Some v \<Rightarrow> [v])"

lemma successor_trans: "successor a b \<Longrightarrow> successor b c \<Longrightarrow> successor a c"
  unfolding successor_def using dominates_trans by (meson order_trans)

lemma chain_extend:
  assumes "sorted_wrt successor (v # vs)" and "successor old v"
  shows "sorted_wrt successor (old # v # vs)"
proof -
  have "successor old x" if "x \<in> set vs" for x
    using that assms successor_trans [of old v x] by simp
  with assms show ?thesis
    by simp
qed

lemma unat_succ_u64: "unat (x :: u64) + 1 < 2 ^ 64 \<Longrightarrow> unat (x + 1) = unat x + 1"
  by (simp add: unat_word_ariths)

lemma clk_below_max: "unat (x :: u64) + n < 2 ^ 64 \<Longrightarrow> 0 < n \<Longrightarrow> x \<noteq> u64_max"
  by (auto simp: unsigned_minus_1_eq_mask mask_eq_exp_minus_1)

text \<open>Room for the remaining writes: the counter will not wrap, and time does not run back.\<close>

definition room_for ::
    "string \<Rightarrow> (('v, 'c) env \<times> http_request \<times> 'v client_write) list \<Rightarrow> 'v versioned_value option \<Rightarrow> bool" where
  "room_for n ws cell \<longleftrightarrow> (\<forall>old. cell = Some old \<longrightarrow>
     unat (clk old n) + length ws < 2 ^ 64 \<and> (\<forall>(E, req, w) \<in> set ws. timestamp old \<le> now E))"

text \<open>What an accepted write makes of the cell it found.\<close>

definition written_over ::
    "string \<Rightarrow> 'v versioned_value option \<Rightarrow> 'v versioned_value \<Rightarrow> bool" where
  "written_over n cell v \<longleftrightarrow>
     (case cell of
        None \<Rightarrow> clk v = (\<lambda>m. if m = n then 1 else 0)
      | Some old \<Rightarrow> dominates v old \<and> clk v = (clk old)(n := clk old n + 1))"

lemma room_for_rest: "room_for n (x # ws) cell \<Longrightarrow> room_for n ws cell"
  by (auto simp: room_for_def)

lemma room_not_max: "room_for n (x # ws) (Some old) \<Longrightarrow> clk old n \<noteq> u64_max"
  by (rule clk_below_max [of _ "length (x # ws)"]) (simp_all add: room_for_def)

lemma room_for_written:
  assumes "room_for n ((E, req, w) # ws) cell" and "written_over n cell v" and "timestamp v = now E"
    and "monotone_clock ((E, req, w) # ws)" and "length ((E, req, w) # ws) < 2 ^ 64"
  shows "room_for n ws (Some v)"
proof -
  have "unat (clk v n) + length ws < 2 ^ 64"
  proof (cases cell)
    case None
    with assms(2,5) show ?thesis
      by (simp add: written_over_def)
  next
    case (Some old)
    with assms(1) have "unat (clk old n) + 1 + length ws < 2 ^ 64"
      by (simp add: room_for_def)
    with Some assms(2) show ?thesis
      by (simp add: written_over_def unat_succ_u64)
  qed
  with assms(3,4) show ?thesis
    by (auto simp: room_for_def monotone_clock_def)
qed

lemma chain_written:
  assumes "sorted_wrt successor (v # vs)" and "written_over n cell v"
    and "room_for n ((E, req, w) # ws) cell" and "timestamp v = now E"
  shows "sorted_wrt successor (cell_list cell @ v # vs)"
proof (cases cell)
  case None
  with assms(1) show ?thesis
    by (simp add: cell_list_def)
next
  case (Some old)
  with assms(2-4) have "successor old v"
    by (simp add: successor_def written_over_def room_for_def)
  with chain_extend [OF assms(1)] Some show ?thesis
    by (simp add: cell_list_def)
qed

lemma serve_write_cases:
  assumes "serve_write E req (t, k) w nd = (resp, nd', out)" and "current_addr E = n"
    and "room_for n ((E, req, w) # ws) (store_get t k (store nd))"
  obtains (none) "written_version resp = []" "store_get t k (store nd') = store_get t k (store nd)"
    | (some) v where "written_version resp = [v]" "store_get t k (store nd') = Some v"
        "timestamp v = now E" "written_over n (store_get t k (store nd)) v"
proof -
  have "clk old (current_addr E) \<noteq> u64_max" if "store_get t k (store nd) = Some old" for old
    using assms(2,3) that by (simp add: room_not_max)
  from serve_write_step [OF assms(1) this] show thesis
    using none some assms(2) unfolding written_over_def by blast
qed

lemma serve_writes_chain:
  assumes "serve_writes (t, k) ws nd = (vs, nd')"
    and "same_coordinator n ws" and "monotone_clock ws"
    and "room_for n ws (store_get t k (store nd))" and "length ws < 2 ^ 64"
  shows "sorted_wrt successor (cell_list (store_get t k (store nd)) @ vs) \<and>
    store_get t k (store nd') =
      (if vs = [] then store_get t k (store nd) else Some (last vs))"
  using assms
proof (induction ws arbitrary: nd vs)
  case Nil
  then show ?case
    by (auto simp: cell_list_def split: option.splits)
next
  case (Cons x ws)
  obtain E req w where x: "x = (E, req, w)"
    by (metis prod_cases3)
  obtain resp nd1 out where step: "serve_write E req (t, k) w nd = (resp, nd1, out)"
    by (metis prod_cases3)
  obtain vs1 where rest: "serve_writes (t, k) ws nd1 = (vs1, nd')" and vs: "vs = written_version resp @ vs1"
    using Cons.prems(1) x step by (auto split: prod.splits)
  have n: "current_addr E = n" and ws: "same_coordinator n ws" "monotone_clock ws"
    using Cons.prems(2,3) x by (auto simp: same_coordinator_def monotone_clock_def)
  note room = Cons.prems(4) [unfolded x]
  from step n room show ?case
  proof (cases rule: serve_write_cases)
    case none
    with Cons.IH [OF rest ws] Cons.prems(5) room_for_rest [OF room] vs show ?thesis
      by simp
  next
    case (some v)
    have "room_for n ws (Some v)"
      using room_for_written [OF room some(4,3)] Cons.prems(3,5) x by simp
    with Cons.IH [OF rest ws] Cons.prems(5) some(2)
    have "sorted_wrt successor (v # vs1)"
      and final: "store_get t k (store nd') = (if vs1 = [] then Some v else Some (last vs1))"
      by (simp_all add: cell_list_def)
    from chain_written [OF this(1) some(4) room some(3)] final vs some(1) show ?thesis
      by simp
  qed
qed

lemma successor_chain_order:
  assumes "sorted_wrt successor vs" and "a \<in> set vs" and "b \<in> set vs" and "a \<noteq> b"
  shows "successor a b \<or> successor b a"
proof -
  obtain i j where "i < length vs" "j < length vs" "a = vs ! i" "b = vs ! j"
    using assms(2,3) by (auto simp: in_set_conv_nth)
  moreover from this assms(4) have "i < j \<or> j < i"
    by (metis nat_neq_iff)
  ultimately show ?thesis
    using sorted_wrt_nth_less [OF assms(1)] by blast
qed

lemma chain_synchronous:
  assumes "sorted_wrt successor vs"
  shows "clock_synchronous (set vs)"
  unfolding clock_synchronous_def
  using successor_chain_order [OF assms] dominates_asym
  by (metis dominates_irrefl successor_def)

lemma chain_winner:
  assumes "sorted_wrt successor vs" and "vs \<noteq> []"
  shows "lww.winner (set vs) (last vs)"
proof -
  obtain us where us: "vs = us @ [last vs]"
    using assms(2) append_butlast_last_id by metis
  have "supersedes (last vs) y" if "y \<in> set vs" "y \<noteq> last vs" for y
  proof -
    from that us have "y \<in> set us"
      by (metis Un_iff empty_set insert_iff list.simps(15) set_append singletonD)
    with assms(1) us have "successor y (last vs)"
      by (metis sorted_wrt_append list.set_intros(1))
    then show ?thesis
      by (simp add: successor_def supersedes_def)
  qed
  with assms(2) show ?thesis
    by (simp add: lww.winner_def)
qed

section \<open>Properties of replication\<close>

text \<open>
  C15: the internal write merges one cell and checks the secret. With the cluster secret the
  addressed cell becomes the merge of what it held and the incoming version and every other
  record stays; with any other secret the node is untouched and the answer is 401.
\<close>

theorem internal_write_merges:
  "(secret = cluster_secret E \<longrightarrow>
      store_get t' k' (store (deliver_put E secret t k v nd)) =
        (if (t', k') = (t, k) then merge_cell (store_get t k (store nd)) v
         else store_get t' k' (store nd))) \<and>
   (secret \<noteq> cluster_secret E \<longrightarrow>
      put_value_internal E (internal_header secret) (t, k) v nd = (respond 401 NoBody, nd, []))"
  by (simp add: store_get_deliver put_value_internal_def)

theorem internal_write_merges_witness:
  "put_value_internal (sample_env ''n2'' 9) (internal_header ''bad'') (''t'', ''k'')
     (vv_new 5 fmempty ''u'' ''n1'') sample_node = (respond 401 NoBody, sample_node, [])"
proof -
  have "''bad'' \<noteq> cluster_secret (sample_env ''n2'' 9)"
    by code_simp
  with internal_write_merges [of "''bad''" "sample_env ''n2'' 9"] show ?thesis
    by blast
qed

text \<open>
  C16: strong convergence. Two replicas that have seen the same set of versions of a key, in
  any order and with any repetitions, hold the same version of it, provided the versions'
  timestamps agree with their clocks.
\<close>

theorem replicas_converge:
  assumes "authentic ds1" and "authentic ds2"
    and "clock_synchronous (seen_versions (store_get t k (store nd1)) (versions_of ds1))"
    and "seen_versions (store_get t k (store nd2)) (versions_of ds2) =
         seen_versions (store_get t k (store nd1)) (versions_of ds1)"
  shows "store_get t k (store (receive_all t k ds1 nd1)) =
    store_get t k (store (receive_all t k ds2 nd2))"
  using seen_converges [OF assms(3,4)] assms(1,2) by (simp add: receive_all_cell)

theorem replicas_converge_witness:
  "store_get ''t'' ''z'' (store (receive_all ''t'' ''z''
      [(sample_env ''n1'' 9, ''cs'', vv_new 5 fmempty ''u'' ''n1''),
       (sample_env ''n1'' 9, ''cs'', vv_new 6 fmempty ''u'' ''n2'')] sample_node)) =
   store_get ''t'' ''z'' (store (receive_all ''t'' ''z''
      [(sample_env ''n2'' 8, ''cs'', vv_new 6 fmempty ''u'' ''n2''),
       (sample_env ''n2'' 9, ''cs'', vv_new 5 fmempty ''u'' ''n1'')] sample_node))"
proof (rule replicas_converge)
  have none: "store_get ''t'' ''z'' (store sample_node) = None"
    by code_simp
  show "clock_synchronous (seen_versions (store_get ''t'' ''z'' (store sample_node))
      (versions_of [(sample_env ''n1'' 9, ''cs'', vv_new 5 fmempty ''u'' ''n1''),
        (sample_env ''n1'' 9, ''cs'', vv_new 6 fmempty ''u'' ''n2'')]))"
    unfolding none seen_versions_def clock_synchronous_def by code_simp
qed (auto simp: authentic_def cluster_secret_def sample_env_def seen_versions_def versions_of_def)

text \<open>
  C6: keys with one coordinator converge. If the client writes of a new key all go through
  one node whose clock does not run backwards, then any replica that has received exactly the
  versions that node produced, in any order and with any repetitions, holds the node's final
  version, even when several writes fall into one millisecond.
\<close>

theorem single_coordinator_converges:
  assumes run: "serve_writes (t, k) ws nd = (vs, nd')"
    and "same_coordinator n ws" and "monotone_clock ws" and "length ws < 2 ^ 64"
    and "store_get t k (store nd) = None" and "store_get t k (store replica) = None"
    and "authentic ds" and seen: "set (versions_of ds) = set vs"
  shows "store_get t k (store (receive_all t k ds replica)) = store_get t k (store nd')"
proof -
  have room: "room_for n ws (store_get t k (store nd))"
    using assms(5) by (simp add: room_for_def)
  show ?thesis
  proof (cases "vs = []")
    case True
    with serve_writes_chain [OF run assms(2,3) room assms(4)] assms have "versions_of ds = []" "store_get t k (store nd') = None"
      by auto
    with assms show ?thesis
      by (simp add: receive_all_cell)
  next
    case False
    from serve_writes_chain [OF run assms(2,3) room assms(4)] assms False
    have chain: "sorted_wrt successor vs" and final: "store_get t k (store nd') = Some (last vs)"
      by (auto simp: cell_list_def)
    have "clock_synchronous (set (versions_of ds))" and "versions_of ds \<noteq> []"
      using chain_synchronous [OF chain] seen False by auto
    then obtain m where "foldl merge_cell None (versions_of ds) = Some m"
      and "lww.winner (set vs) m"
      using lww.receive_all_winner seen by metis
    with lww.winner_unique [OF _ chain_winner [OF chain False]] final assms show ?thesis
      by (simp add: receive_all_cell)
  qed
qed

theorem single_coordinator_converges_witness:
  "store_get ''t'' ''z'' (store (receive_all ''t'' ''z''
      (map (\<lambda>v. (sample_env ''n2'' 50, ''cs'', v))
        (rev (fst (serve_writes (''t'', ''z'')
          [(sample_env ''n1'' 9, bearer ''Ualice'', Put fmempty),
           (sample_env ''n1'' 9, bearer ''Ualice'', Patch (fmupd ''f'' ''y'' fmempty))] sample_node))))
      sample_node)) =
   store_get ''t'' ''z'' (store (snd (serve_writes (''t'', ''z'')
          [(sample_env ''n1'' 9, bearer ''Ualice'', Put fmempty),
           (sample_env ''n1'' 9, bearer ''Ualice'', Patch (fmupd ''f'' ''y'' fmempty))] sample_node)))"
proof (rule single_coordinator_converges [OF prod.collapse [symmetric]])
  show "store_get ''t'' ''z'' (store sample_node) = None"
    by code_simp
  show "store_get ''t'' ''z'' (store sample_node) = None"
    by code_simp
  show "same_coordinator ''n1''
      [(sample_env ''n1'' 9, bearer ''Ualice'', Put fmempty),
       (sample_env ''n1'' 9, bearer ''Ualice'', Patch (fmupd ''f'' ''y'' fmempty))]"
    by (simp add: same_coordinator_def sample_env_def)
qed (simp_all add: monotone_clock_def authentic_def cluster_secret_def sample_env_def versions_of_def comp_def)

text \<open>
  Replicating a PUT to the writing node itself is harmless. The PUT handler also addresses
  its own node; delivering that message after the write leaves the store as it is.
\<close>

theorem self_replication_harmless:
  assumes "put_value E req (t, k) val nd = (resp, nd', out)"
    and "PutInternal (current_addr E) t' k' v secret tries \<in> set out"
  shows "store (deliver_put E' secret t' k' v nd') = store nd'"
proof -
  from assms have "t' = t" "k' = k" and v: "store_get t k (store nd') = Some v"
    by (auto simp: put_value_def replicate_put_def Let_def store_simps
        split: sum.splits option.splits if_splits)
  moreover have "store_insert t k v (touch_table t (store nd')) = store nd'"
    using v by (auto simp: store_get_def store_insert_def touch_table_def lookup_or_def
        intro!: fmap_ext split: option.splits)
  ultimately show ?thesis
    by (auto simp: deliver_put_def put_value_internal_def Let_def store_simps)
qed

theorem self_replication_harmless_witness:
  "store (deliver_put (sample_env ''n1'' 50) ''cs'' ''t'' ''z'' (vv_new 9 fmempty ''alice'' ''n1'')
     (fst (snd (put_value (sample_env ''n1'' 9) (bearer ''Ualice'') (''t'', ''z'') fmempty sample_node)))) =
   store (fst (snd (put_value (sample_env ''n1'' 9) (bearer ''Ualice'') (''t'', ''z'') fmempty sample_node)))"
proof -
  let ?run = "put_value (sample_env ''n1'' 9) (bearer ''Ualice'') (''t'', ''z'') fmempty sample_node"
  have "PutInternal (current_addr (sample_env ''n1'' 9)) ''t'' ''z''
      (vv_new 9 fmempty ''alice'' ''n1'') ''cs'' 3 \<in> set (snd (snd ?run))"
    by code_simp
  then show ?thesis
    by (intro self_replication_harmless [of _ _ _ _ _ _ "fst ?run" _ "snd (snd ?run)"]) simp_all
qed

text \<open>
  Perfectly synchronised clocks do not suffice. A resolved conflict replaces the losing
  clock instead of merging it, so counters are reused. In a run of four nodes with strictly
  increasing timestamps, and without any delete, three versions of one key supersede each
  other in a cycle, and two replicas that received all three, in different orders, keep
  different versions.
\<close>

lemma clock_replacement_diverges:
  "let e = vv_new 1 (fmupd ''f'' (1 :: nat) fmempty) ''u'' ''A'';
       old = vv_new 2 (fmupd ''f'' 2 fmempty) ''u'' ''M'';
       z = vv_update 3 (fmupd ''f'' 3 fmempty) ''Z'' e;
       a = vv_update 4 (fmupd ''f'' 4 fmempty) ''M'' (merge_version z old);
       c = vv_new 5 (fmupd ''f'' 5 fmempty) ''u'' ''C'';
       b = vv_update 6 (fmupd ''f'' 6 fmempty) ''A'' (merge_version old e)
   in supersedes a b \<and> supersedes b c \<and> supersedes c a \<and>
     foldl merge_cell None [a, b, c] = Some c \<and> foldl merge_cell None [c, a, b] = Some b \<and> b \<noteq> c"
  by code_simp

text \<open>
  A late replica message undoes a delete. Deleting a key leaves no trace of it, so an
  internal write of the deleted version that arrives afterwards stores it again; delivered in
  the other order, the key stays deleted.
\<close>

theorem delete_undone_by_late_put:
  assumes "store_get t k (store nd) = Some v"
  shows "let del = (\<lambda>x. fst (snd (delete_value E (internal_header (cluster_secret E)) (t, k) x)));
             put = deliver_put E (cluster_secret E) t k v
         in store_get t k (store (del nd)) = None \<and>
            store_get t k (store (put (del nd))) = Some v \<and>
            store_get t k (store (del (put nd))) = None"
  by (simp add: Let_def store_get_deliver delete_value_parts store_simps merge_cell_def)

theorem delete_undone_by_late_put_witness:
  "store_get ''t'' ''k'' (store (deliver_put (sample_env ''n1'' 9) ''cs'' ''t'' ''k''
      (vv_new 5 (fmupd ''f'' ''x'' fmempty) ''alice'' ''n1'')
      (fst (snd (delete_value (sample_env ''n1'' 9) (internal_header ''cs'') (''t'', ''k'') sample_node))))) =
   Some (vv_new 5 (fmupd ''f'' ''x'' fmempty) ''alice'' ''n1'')"
proof -
  let ?v = "vv_new 5 (fmupd ''f'' ''x'' fmempty) ''alice'' ''n1''"
  have "store_get ''t'' ''k'' (store sample_node) = Some ?v"
    by code_simp
  moreover have "cluster_secret (sample_env ''n1'' 9) = ''cs''"
    by code_simp
  ultimately show ?thesis
    using delete_undone_by_late_put [of "''t''" "''k''" sample_node ?v "sample_env ''n1'' 9"]
    by (simp add: Let_def)
qed

end
