(* ===== verification/Admin.thy ===== *)
theory Admin
  imports Auth Convergence
begin

text \<open>
  The administration interface, \<^verbatim>\<open>admin.rs\<close>: login with the master password, browsing, and the
  two writing handlers, which skip the ownership check and replicate like the ordinary ones.
\<close>

section \<open>The handlers\<close>

definition admin_login :: "('v, 'c) env \<Rightarrow> string \<Rightarrow> 'v response" where
  "admin_login E password =
     (let master_password = (case var_admin_password E of Some p \<Rightarrow> p | None \<Rightarrow> ''admin123'') in
      if password = master_password then
        (case jwt_encode E (jwt_secret E) \<lparr>sub = ''admin'', exp = token_expiry E, admin = Some True\<rparr> of
           Some token \<Rightarrow> respond 200 (TokenJson token None)
         | None \<Rightarrow> respond 500 NoBody)
      else respond 401 NoBody)"

definition admin_get_tables :: "('v, 'c) env \<Rightarrow> http_request \<Rightarrow> ('v, 'c) node \<Rightarrow> 'v response" where
  "admin_get_tables E req nd =
     (if \<not> validate_admin_token E req then respond 401 NoBody
      else respond 200 (KeysJson (map fst (iter_map (iter_order E) (store nd)))))"

definition admin_get_keys :: "('v, 'c) env \<Rightarrow> http_request \<Rightarrow> string \<Rightarrow> ('v, 'c) node \<Rightarrow> 'v response" where
  "admin_get_keys E req table_name nd =
     (if \<not> validate_admin_token E req then respond 401 NoBody
      else case fmlookup (store nd) table_name of
             Some table \<Rightarrow> respond 200 (KeysJson (map fst (iter_map (iter_order E) table)))
           | None \<Rightarrow> respond 404 NoBody)"

definition admin_get_record ::
    "('v, 'c) env \<Rightarrow> http_request \<Rightarrow> string \<times> string \<Rightarrow> ('v, 'c) node \<Rightarrow> 'v response" where
  "admin_get_record E req path nd =
     (let (table_name, key) = path in
      if \<not> validate_admin_token E req then respond 401 NoBody
      else case fmlookup (store nd) table_name of
             Some table \<Rightarrow>
               (case fmlookup table key of
                  Some rec \<Rightarrow> respond 200 (RecordJson rec)
                | None \<Rightarrow> respond 404 NoBody)
           | None \<Rightarrow> respond 404 NoBody)"

definition replicate_admin_change ::
    "('v, 'c) env \<Rightarrow> string \<Rightarrow> string \<Rightarrow> 'v versioned_value \<Rightarrow> ('v, 'c) node \<Rightarrow> 'v outgoing list" where
  "replicate_admin_change E table_name key_val new_value nd =
     map (\<lambda>tgt. PutInternal tgt table_name key_val new_value (cluster_secret_or_empty E) 1)
       (filter (\<lambda>tgt. tgt \<noteq> current_addr E) (replication_targets E key_val nd))"

definition admin_put_record ::
    "('v, 'c) env \<Rightarrow> http_request \<Rightarrow> string \<times> string \<Rightarrow> (string, 'v) fmap \<Rightarrow> ('v, 'c) handler" where
  "admin_put_record E req path val nd =
     (let (table_name, key_val) = path in
      if \<not> validate_admin_token E req then (respond 401 NoBody, nd, [])
      else
        (let nd1 = nd\<lparr>store := touch_table table_name (store nd)\<rparr>;
             new_value = (case store_get table_name key_val (store nd1) of
                            Some existing \<Rightarrow> vv_update (now E) val (current_addr E) existing
                          | None \<Rightarrow> vv_new (now E) val ''admin'' (current_addr E));
             nd2 = commit_write E table_name key_val new_value nd1
         in (respond 200 (RecordJson new_value), nd2,
             replicate_admin_change E table_name key_val new_value nd2)))"

definition admin_delete_record ::
    "('v, 'c) env \<Rightarrow> http_request \<Rightarrow> string \<times> string \<Rightarrow> ('v, 'c) handler" where
  "admin_delete_record E req path nd =
     (let (table_name, key_val) = path in
      if \<not> validate_admin_token E req then (respond 401 NoBody, nd, [])
      else
        (let nd1 = notify_node E table_name key_val Deleted
               (nd\<lparr>store := store_remove table_name key_val (store nd)\<rparr>);
             targets = filter (\<lambda>tgt. tgt \<noteq> current_addr E) (replication_targets E key_val nd1)
         in (respond 200 (MessageJson ''Deleted by admin''), nd1,
             map (\<lambda>tgt. DeleteKey tgt table_name key_val (cluster_secret E) 1) targets)))"

lemmas admin_defs = admin_get_tables_def admin_get_keys_def admin_get_record_def
  admin_put_record_def admin_delete_record_def

section \<open>Cells\<close>

definition admin_put_cell ::
    "('v, 'c) env \<Rightarrow> (string, 'v) fmap \<Rightarrow> 'v versioned_value option \<Rightarrow> 'v versioned_value" where
  "admin_put_cell E val cell =
     (case cell of
        Some v \<Rightarrow> vv_update (now E) val (current_addr E) v
      | None \<Rightarrow> vv_new (now E) val ''admin'' (current_addr E))"

lemma admin_put_run:
  assumes "validate_admin_token E req" and "admin_put_record E req (t, k) val nd = (r, nd', out)"
  shows "r = respond 200 (RecordJson (admin_put_cell E val (store_get t k (store nd))))"
    and "store_get t' k' (store nd') =
      (if t' = t \<and> k' = k then Some (admin_put_cell E val (store_get t k (store nd)))
       else store_get t' k' (store nd))"
    and "out = replicate_admin_change E t k (admin_put_cell E val (store_get t k (store nd))) nd"
  using assms
  by (auto simp: admin_put_record_def Let_def store_simps admin_put_cell_def replicate_admin_change_def
      replication_targets_def split: option.splits)

lemma admin_delete_run:
  assumes "validate_admin_token E req" and "admin_delete_record E req (t, k) nd = (r, nd', out)"
  shows "store_get t' k' (store nd') = (if t' = t \<and> k' = k then None else store_get t' k' (store nd))"
    and "out = map (\<lambda>tgt. DeleteKey tgt t k (cluster_secret E) 1)
      (filter (\<lambda>tgt. tgt \<noteq> current_addr E) (replication_targets E k nd))"
  using assms
  by (auto simp: admin_delete_record_def Let_def store_simps replication_targets_def)

section \<open>Properties of the administration interface\<close>

text \<open>
  C31: every administration request needs an administrator token. Without one, all five
  handlers answer 401 and change nothing; and a token that was issued for the master password
  passes the check on every node with the same JWT secret until it expires.
\<close>

theorem admin_needs_token:
  assumes "jwt_sound E" and "jwt_verify E' = jwt_verify E" and "jwt_secret E' = jwt_secret E"
    and "0 \<le> utc_seconds E" and "utc_seconds E + 86400 < 2 ^ 64" and "utc_seconds E' \<le> utc_seconds E + 86400"
  shows "(\<not> validate_admin_token E' req \<longrightarrow>
      admin_get_tables E' req nd = respond 401 NoBody \<and>
      admin_get_keys E' req t nd = respond 401 NoBody \<and>
      admin_get_record E' req path nd = respond 401 NoBody \<and>
      admin_put_record E' req path val nd = (respond 401 NoBody, nd, []) \<and>
      admin_delete_record E' req path nd = (respond 401 NoBody, nd, [])) \<and>
    (body (admin_login E password) = TokenJson token st \<longrightarrow>
      password = (case var_admin_password E of Some p \<Rightarrow> p | None \<Rightarrow> ''admin123'') \<and>
      validate_admin_token E' (bearer token))"
proof (intro conjI impI)
  assume "body (admin_login E password) = TokenJson token st"
  then have issued: "jwt_encode E (jwt_secret E) \<lparr>sub = ''admin'', exp = token_expiry E, admin = Some True\<rparr> = Some token"
    and "password = (case var_admin_password E of Some p \<Rightarrow> p | None \<Rightarrow> ''admin123'')"
    by (auto simp: admin_login_def Let_def split: option.splits if_splits)
  then show "password = (case var_admin_password E of Some p \<Rightarrow> p | None \<Rightarrow> ''admin123'')"
    by simp
  from issued_payload [OF assms issued] show "validate_admin_token E' (bearer token)"
    by (simp add: validate_admin_token_def bearer_def decode_admin_claims_def)
qed (simp_all add: admin_defs split: prod.splits)

theorem admin_needs_token_witness:
  "validate_admin_token (sample_env ''n2'' 70) (bearer ''Aadmin'') \<and>
   admin_delete_record (sample_env ''n2'' 70) (bearer ''Ualice'') (''t'', ''k'') sample_node =
     (respond 401 NoBody, sample_node, [])"
proof -
  have "body (admin_login (sample_env ''n1'' 9) ''pw'') = TokenJson ''Aadmin'' None"
    and "\<not> validate_admin_token (sample_env ''n2'' 70) (bearer ''Ualice'')"
    by code_simp+
  with admin_needs_token [OF sample_jwt_sound, of "sample_env ''n2'' 70" "''n1''" 9]
  show ?thesis
    by (simp add: sample_env_def)
qed

text \<open>
  An administrator's write overrides ownership and keeps it. It stores the update of the
  addressed record whoever owns it, with the owner it had (or \<^verbatim>\<open>admin\<close> for a new
  record), and no other record changes; every message it sends carries that version to another
  active node; and a replica that holds the version that was overwritten replaces it, unless
  the coordinator's counter wrapped around.
\<close>

theorem admin_put_overrides:
  assumes "validate_admin_token E req" and "admin_put_record E req (t, k) val nd = (r, nd', out)"
  shows "\<exists>v. r = respond 200 (RecordJson v) \<and>
    (\<forall>t' k'. store_get t' k' (store nd') = (if (t', k') = (t, k) then Some v else store_get t' k' (store nd))) \<and>
    vvalue v = val \<and>
    owner v = (case store_get t k (store nd) of Some old \<Rightarrow> owner old | None \<Rightarrow> ''admin'') \<and>
    (\<forall>m \<in> set out. \<exists>tgt. m = PutInternal tgt t k v (cluster_secret_or_empty E) 1 \<and> tgt \<noteq> current_addr E) \<and>
    (\<forall>old. store_get t k (store nd) = Some old \<longrightarrow> clk old (current_addr E) \<noteq> u64_max \<longrightarrow>
       merge_cell (Some old) v = Some v)"
proof -
  let ?v = "admin_put_cell E val (store_get t k (store nd))"
  have "merge_cell (Some old) ?v = Some ?v"
    if "store_get t k (store nd) = Some old" "clk old (current_addr E) \<noteq> u64_max" for old
  proof -
    have "dominates ?v old"
      using that by (auto intro!: dominates_bump [where m = "current_addr E"] simp: clk_simps admin_put_cell_def)
    then show ?thesis
      by (simp add: merge_cell_def merge_version_def supersedes_def)
  qed
  moreover have "vvalue ?v = val"
    "owner ?v = (case store_get t k (store nd) of Some old \<Rightarrow> owner old | None \<Rightarrow> ''admin'')"
    by (simp_all add: admin_put_cell_def vv_update_def vv_new_def split: option.splits)
  ultimately show ?thesis
    using admin_put_run [OF assms] by (intro exI [of _ ?v]) (auto simp: replicate_admin_change_def)
qed

theorem admin_put_overrides_witness:
  "\<exists>v. store_get ''t'' ''k'' (store (fst (snd (admin_put_record (sample_env ''n1'' 9) (bearer ''Aadmin'')
       (''t'', ''k'') fmempty sample_node)))) = Some v \<and> owner v = ''alice''"
proof -
  have "validate_admin_token (sample_env ''n1'' 9) (bearer ''Aadmin'')"
    by code_simp
  from admin_put_overrides [OF this triple_collapse, of "''t''" "''k''" fmempty sample_node]
  show ?thesis
    by (auto simp: sample_node_def store_get_def vv_new_def)
qed

text \<open>
  Administrator writes do not replicate on the default secret. In a cluster where
  \<^verbatim>\<open>CLUSTER_SECRET\<close> is not set, the sender presents the empty string and the receiver expects
  \<^verbatim>\<open>default_secret\<close>, so every replication message of an administrator's write is refused
  with 401 and changes nothing.
\<close>

theorem admin_replication_refused:
  assumes "var_cluster_secret E = None" and "var_cluster_secret E' = None"
    and "admin_put_record E req (t, k) val nd = (r, nd', out)"
    and "PutInternal tgt t' k' v secret tries \<in> set out"
  shows "put_value_internal E' (internal_header secret) (t', k') v peer = (respond 401 NoBody, peer, [])"
proof -
  from assms(3,4) have "secret = cluster_secret_or_empty E"
    by (auto simp: admin_put_record_def Let_def replicate_admin_change_def split: if_splits)
  with assms(1,2) have "secret \<noteq> cluster_secret E'"
    by (simp add: cluster_secret_or_empty_def cluster_secret_def)
  then show ?thesis
    by (simp add: put_value_internal_def)
qed

theorem admin_replication_refused_witness:
  "put_value_internal ((sample_env ''n2'' 9)\<lparr>var_cluster_secret := None\<rparr>) (internal_header '''') (''t'', ''z'')
     (vv_new 9 fmempty ''admin'' ''n1'') sample_node = (respond 401 NoBody, sample_node, [])"
proof -
  let ?E = "(sample_env ''n1'' 9)\<lparr>var_cluster_secret := None\<rparr>"
  have "PutInternal ''n2'' ''t'' ''z'' (vv_new 9 fmempty ''admin'' ''n1'') '''' 1 \<in>
      set (snd (snd (admin_put_record ?E (bearer ''Aadmin'') (''t'', ''z'') fmempty sample_node)))"
    by code_simp
  from admin_replication_refused [OF _ _ triple_collapse this,
      where E' = "(sample_env ''n2'' 9)\<lparr>var_cluster_secret := None\<rparr>" and peer = sample_node]
  show ?thesis
    by simp
qed

text \<open>
  An administrator's delete spreads. It removes the addressed record whoever owns it and
  nothing else, and every message it sends, processed by a node with the same cluster
  secret, removes the record there.
\<close>

theorem admin_delete_spreads:
  assumes "validate_admin_token E req" and "admin_delete_record E req (t, k) nd = (r, nd', out)"
    and "cluster_secret E' = cluster_secret E"
  shows "store_get t' k' (store nd') = (if (t', k') = (t, k) then None else store_get t' k' (store nd)) \<and>
    (\<forall>m \<in> set out. \<exists>tgt secret. m = DeleteKey tgt t k secret 1 \<and> tgt \<noteq> current_addr E \<and>
       store_get t' k' (store (fst (snd (delete_value E' (internal_header secret) (t, k) peer)))) =
         (if (t', k') = (t, k) then None else store_get t' k' (store peer)))"
  using admin_delete_run [OF assms(1,2)] assms(3) by (auto simp: delete_value_parts Let_def store_simps)

theorem admin_delete_spreads_witness:
  "store_get ''t'' ''k'' (store (fst (snd (admin_delete_record (sample_env ''n1'' 9) (bearer ''Aadmin'')
     (''t'', ''k'') sample_node)))) = None"
proof -
  have "validate_admin_token (sample_env ''n1'' 9) (bearer ''Aadmin'')"
    by code_simp
  from admin_delete_spreads [OF this triple_collapse refl, where nd = sample_node and t = "''t''" and k = "''k''"
      and t' = "''t''" and k' = "''k''"]
  show ?thesis
    by simp
qed

end
