(* ===== verification/Paths.thy ===== *)
theory Paths
  imports Routes
begin

text \<open>
  File-system paths as \<^verbatim>\<open>persistance.rs\<close> builds them from table names, and the folders they lead to.
  Every name on a path is taken for a folder's: symbolic links, and paths that run through a file
  (an I/O error of the save), are not modelled.
\<close>

section \<open>Paths\<close>

text \<open>\<^verbatim>\<open>Path::join\<close>: an absolute argument replaces the base.\<close>

definition path_join :: "string \<Rightarrow> string \<Rightarrow> string" where
  "path_join base p = (if starts_with ''/'' p then p else base @ ''/'' @ p)"

definition base_dir :: string where
  "base_dir = ''./data''"

definition table_path :: "string \<Rightarrow> string" where
  "table_path t = path_join base_dir t"

section \<open>Folders\<close>

text \<open>
  A folder, from the working directory of the process or from the root; the names that lead
  there, with \<open>..\<close> only at the front and only from the working directory.
\<close>

datatype folder = InCwd "string list" | InRoot "string list"

fun folder_key :: "folder \<Rightarrow> string list" where
  "folder_key (InCwd ns) = ''.'' # ns"
| "folder_key (InRoot ns) = ''/'' # ns"

lemma folder_key_inject: "folder_key f = folder_key g \<Longrightarrow> f = g"
  by (cases f; cases g) auto

instantiation folder :: linorder
begin

definition less_eq_folder :: "folder \<Rightarrow> folder \<Rightarrow> bool" where
  "f \<le> g \<longleftrightarrow> folder_key f \<le> folder_key g"

definition less_folder :: "folder \<Rightarrow> folder \<Rightarrow> bool" where
  "f < g \<longleftrightarrow> folder_key f < folder_key g"

instance
  by standard (auto simp: less_eq_folder_def less_folder_def intro: folder_key_inject)

end

text \<open>Following a path name by name.\<close>

fun go_up :: "bool \<Rightarrow> string list \<Rightarrow> string list" where
  "go_up absolute [] = (if absolute then [] else [''..''])"
| "go_up absolute (x # acc) = (if x = ''..'' then ''..'' # x # acc else acc)"

fun walk :: "bool \<Rightarrow> string list \<Rightarrow> string list \<Rightarrow> string list" where
  "walk absolute [] acc = acc"
| "walk absolute (c # cs) acc =
     (if c = [] \<or> c = ''.'' then walk absolute cs acc
      else if c = ''..'' then walk absolute cs (go_up absolute acc)
      else walk absolute cs (c # acc))"

definition resolve :: "bool \<Rightarrow> string list \<Rightarrow> folder" where
  "resolve absolute cs = (if absolute then InRoot (rev (walk True cs [])) else InCwd (rev (walk False cs [])))"

definition folder_at :: "string \<Rightarrow> folder" where
  "folder_at p = resolve (starts_with ''/'' p) (split_slashes p)"

definition table_folder :: "string \<Rightarrow> folder" where
  "table_folder t = folder_at (table_path t)"

text \<open>A name that is a single component of a path.\<close>

definition component :: "string \<Rightarrow> bool" where
  "component t \<longleftrightarrow> t \<noteq> [] \<and> t \<noteq> ''.'' \<and> t \<noteq> ''..'' \<and> CHR ''/'' \<notin> set t"

section \<open>Lemmas\<close>

lemma split_slashes_not_empty: "split_slashes s \<noteq> []"
  by (subst split_slashes.simps) (simp split: list.splits)

lemma split_base: "split_slashes (''./data/'' @ p) = ''.'' # ''data'' # split_slashes p"
  using split_slashes_cons [of "''.''" "''data/'' @ p"] split_slashes_cons [of "''data''" p] by simp

lemma starts_slash [simp]: "starts_with ''/'' s \<longleftrightarrow> (case s of [] \<Rightarrow> False | c # _ \<Rightarrow> c = CHR ''/'')"
  by (simp add: starts_with_def split: list.splits)

lemma component_path: "component t \<Longrightarrow> table_path t = ''./data/'' @ t"
  by (auto simp: table_path_def path_join_def base_dir_def component_def split: list.splits)

lemma component_segments: "component t \<Longrightarrow> split_slashes (table_path t) = [''.'', ''data'', t]"
  unfolding component_path split_base by (simp add: split_slashes_plain component_def)

lemma component_resolved: "component t \<Longrightarrow> resolve False [''.'', ''data'', t] = InCwd [''data'', t]"
  by (simp add: resolve_def component_def)

lemma component_folder: "component t \<Longrightarrow> table_folder t = InCwd [''data'', t]"
  using component_resolved [of t]
  by (simp add: table_folder_def folder_at_def component_segments) (simp add: component_path)

text \<open>Where the names that are no components lead.\<close>

lemma odd_folders:
  assumes "component x"
  shows "table_folder (''../'' @ x) = InCwd [x]" and "table_folder (''/'' @ x) = InRoot [x]"
    and "table_folder (x @ ''/'') = table_folder x"
proof -
  have x: "x \<noteq> []" "x \<noteq> ''.''" "x \<noteq> ''..''" "CHR ''/'' \<notin> set x"
    using assms by (simp_all add: component_def)
  have dots: "split_slashes (''./data/'' @ ''../'' @ x) = [''.'', ''data'', ''..'', x]"
    using split_slashes_cons [of "''..''" x] x(4) unfolding split_base by (simp add: split_slashes_plain)
  have "table_path (''../'' @ x) = ''./data/'' @ ''../'' @ x"
    by (simp add: table_path_def path_join_def base_dir_def)
  then show "table_folder (''../'' @ x) = InCwd [x]"
    using dots x(1-3) by (simp add: table_folder_def folder_at_def resolve_def)
  have "table_path (''/'' @ x) = ''/'' @ x"
    by (simp add: table_path_def path_join_def)
  moreover have "split_slashes (''/'' @ x) = [[], x]"
    using split_slashes_cons [of "[]" x] x(4) by (simp add: split_slashes_plain)
  ultimately show "table_folder (''/'' @ x) = InRoot [x]"
    using x(1-3) by (simp add: table_folder_def folder_at_def resolve_def)
  have "table_path (x @ ''/'') = ''./data/'' @ x @ ''/''"
    using x by (cases x) (auto simp: table_path_def path_join_def base_dir_def)
  moreover have "split_slashes (''./data/'' @ x @ ''/'') = [''.'', ''data'', x, []]"
    using split_slashes_cons [of x "[]"] x(4) unfolding split_base by (simp add: split_slashes_plain)
  ultimately show "table_folder (x @ ''/'') = table_folder x"
    using x by (simp add: component_folder [OF assms]) (simp add: table_folder_def folder_at_def resolve_def)
qed

end
