(* ===== verification/Persistence.thy ===== *)
theory Persistence
  imports Engine Paths
begin

text \<open>
  Cold storage, \<^verbatim>\<open>storage/persistance.rs\<close>: encryption of text, the periodic save of every table in
  encrypted chunks, and the load of all tables with replay of the write-ahead log. Saving is a
  sequence of file operations, so that a crash or an I/O error between any two of them is a
  prefix of the sequence. AES-GCM, base64 and JSON are parameters (the record \<open>codec\<close>).

  A save names the folder of a table by the path that joins the table's name to the data
  directory; the disk is the tree of folders these paths lead to. A load reads the folders
  directly inside the data directory.
\<close>

section \<open>Text functions of the standard library\<close>

definition newline :: char where
  "newline = CHR 0x0A"

definition strip_cr :: "string \<Rightarrow> string" where
  "strip_cr l = (if l \<noteq> [] \<and> last l = CHR 0x0D then butlast l else l)"

text \<open>\<^verbatim>\<open>str::lines\<close> and \<^verbatim>\<open>BufRead::lines\<close>.\<close>

function lines :: "string \<Rightarrow> string list" where
  "lines s =
     (if s = [] then []
      else case dropWhile (\<lambda>c. c \<noteq> newline) s of
             [] \<Rightarrow> [s]
           | _ # rest \<Rightarrow> strip_cr (takeWhile (\<lambda>c. c \<noteq> newline) s) # lines rest)"
  by pat_completeness auto
termination
proof (relation "measure length", goal_cases)
  case (2 s c rest)
  have "length (dropWhile (\<lambda>c. c \<noteq> newline) s) \<le> length s"
    by (rule length_dropWhile_le)
  with 2(2) have "length (c # rest) \<le> length s"
    by simp
  then show ?case
    by simp
qed simp

declare lines.simps [simp del]

text \<open>\<^verbatim>\<open>str::split_once\<close>.\<close>

definition split_once :: "char \<Rightarrow> string \<Rightarrow> (string \<times> string) option" where
  "split_once c s =
     (case dropWhile (\<lambda>x. x \<noteq> c) s of
        [] \<Rightarrow> None
      | _ # rest \<Rightarrow> Some (takeWhile (\<lambda>x. x \<noteq> c) s, rest))"

text \<open>The validity check of \<^verbatim>\<open>String::from_utf8\<close>.\<close>

definition byte_in :: "nat \<Rightarrow> nat \<Rightarrow> char \<Rightarrow> bool" where
  "byte_in lo hi c \<longleftrightarrow> lo \<le> of_char c \<and> of_char c \<le> hi"

fun utf8_valid :: "string \<Rightarrow> bool" where
  "utf8_valid [] = True"
| "utf8_valid (a # s) =
     (if byte_in 0 0x7F a then utf8_valid s
      else if byte_in 0xC2 0xDF a then
        (case s of b # s' \<Rightarrow> byte_in 0x80 0xBF b \<and> utf8_valid s' | _ \<Rightarrow> False)
      else if byte_in 0xE0 0xEF a then
        (case s of b # c # s' \<Rightarrow>
           byte_in (if of_char a = (0xE0 :: nat) then 0xA0 else 0x80)
                   (if of_char a = (0xED :: nat) then 0x9F else 0xBF) b \<and>
           byte_in 0x80 0xBF c \<and> utf8_valid s' | _ \<Rightarrow> False)
      else if byte_in 0xF0 0xF4 a then
        (case s of b # c # d # s' \<Rightarrow>
           byte_in (if of_char a = (0xF0 :: nat) then 0x90 else 0x80)
                   (if of_char a = (0xF4 :: nat) then 0x8F else 0xBF) b \<and>
           byte_in 0x80 0xBF c \<and> byte_in 0x80 0xBF d \<and> utf8_valid s' | _ \<Rightarrow> False)
      else False)"

section \<open>Encryption\<close>

datatype crypt_error = EncryptionError | Base64Error | TooShort | DecryptionError | Utf8Error

record 'v wal_entry =
  op :: string
  wal_key :: string
  wal_value :: "'v versioned_value option"
  wal_timestamp :: u128

record 'v codec =
  aes_encrypt :: "string \<Rightarrow> string \<Rightarrow> string option"
  aes_decrypt :: "string \<Rightarrow> string \<Rightarrow> string option"
  b64_encode :: "string \<Rightarrow> string"
  b64_decode :: "string \<Rightarrow> string option"
  json_of :: "'v versioned_value \<Rightarrow> string option"
  of_json :: "string \<Rightarrow> 'v versioned_value option"
  wal_of_json :: "string \<Rightarrow> 'v wal_entry option"

definition encrypt :: "'v codec \<Rightarrow> string \<Rightarrow> string \<Rightarrow> crypt_error + string" where
  "encrypt C nonce plain =
     (case aes_encrypt C nonce plain of
        None \<Rightarrow> Inl EncryptionError
      | Some ciphertext \<Rightarrow> Inr (b64_encode C (nonce @ ciphertext)))"

definition decrypt :: "'v codec \<Rightarrow> string \<Rightarrow> crypt_error + string" where
  "decrypt C encrypted =
     (case b64_decode C encrypted of
        None \<Rightarrow> Inl Base64Error
      | Some data \<Rightarrow>
          if length data < 12 then Inl TooShort
          else case aes_decrypt C (take 12 data) (drop 12 data) of
                 None \<Rightarrow> Inl DecryptionError
               | Some plaintext \<Rightarrow> if utf8_valid plaintext then Inr plaintext else Inl Utf8Error)"

section \<open>Saving\<close>

record table_dir =
  storage_db :: "string option"
  wal_log :: "string option"

type_synonym disk = "(folder, table_dir) fmap"

text \<open>The operations of a save, each with the path of the folder it works in.\<close>

datatype disk_op =
    CreateDir string
  | CreateStorage string
  | AppendStorage string string
  | CreateWal string

definition make_dir :: "folder \<Rightarrow> disk \<Rightarrow> disk" where
  "make_dir f d = (case fmlookup d f of None \<Rightarrow> fmupd f \<lparr>storage_db = None, wal_log = None\<rparr> d | Some _ \<Rightarrow> d)"

text \<open>\<^verbatim>\<open>create_dir_all\<close>: every prefix of the path.\<close>

definition create_dir_all :: "string \<Rightarrow> disk \<Rightarrow> disk" where
  "create_dir_all p d =
     (let absolute = starts_with ''/'' p; cs = split_slashes p
      in fold (\<lambda>n. make_dir (resolve absolute (take n cs))) [1..<Suc (length cs)] d)"

fun apply_op :: "disk_op \<Rightarrow> disk \<Rightarrow> disk" where
  "apply_op (CreateDir p) d = create_dir_all p d"
| "apply_op (CreateStorage p) d =
     (case fmlookup d (folder_at p) of
        None \<Rightarrow> d
      | Some dir \<Rightarrow> fmupd (folder_at p) (dir\<lparr>storage_db := Some ''''\<rparr>) d)"
| "apply_op (AppendStorage p text) d =
     (case fmlookup d (folder_at p) of
        None \<Rightarrow> d
      | Some dir \<Rightarrow> fmupd (folder_at p) (dir\<lparr>storage_db := map_option (\<lambda>old. old @ text) (storage_db dir)\<rparr>) d)"
| "apply_op (CreateWal p) d =
     (case fmlookup d (folder_at p) of
        None \<Rightarrow> d
      | Some dir \<Rightarrow> fmupd (folder_at p) (dir\<lparr>wal_log := Some ''''\<rparr>) d)"

definition run_ops :: "disk_op list \<Rightarrow> disk \<Rightarrow> disk" where
  "run_ops ops d = fold apply_op ops d"

abbreviation chunk_size_limit :: nat where
  "chunk_size_limit \<equiv> 1024 * 1024"

text \<open>
  The loop over the rows of a table: the chunks it writes, and whether it ended without an
  error. The nonces are the random draws, one per chunk.
\<close>

fun save_rows ::
    "'v codec \<Rightarrow> (nat \<Rightarrow> string) \<Rightarrow> nat \<Rightarrow> nat \<Rightarrow> (string \<times> 'v versioned_value) list \<Rightarrow> string \<Rightarrow>
     string list \<times> bool" where
  "save_rows C nonce limit n [] plain_buffer =
     (if plain_buffer \<noteq> [] then
        (case encrypt C (nonce n) plain_buffer of
           Inl _ \<Rightarrow> ([], False)
         | Inr encrypted_chunk \<Rightarrow> ([encrypted_chunk @ [newline]], True))
      else ([], True))"
| "save_rows C nonce limit n ((key, versioned_value) # rows) plain_buffer =
     (case json_of C versioned_value of
        None \<Rightarrow> ([], False)
      | Some json_text \<Rightarrow>
          (let plain_buffer = plain_buffer @ key @ '' = '' @ json_text @ [newline] in
           if length plain_buffer \<ge> limit then
             (case encrypt C (nonce n) plain_buffer of
                Inl _ \<Rightarrow> ([], False)
              | Inr encrypted_chunk \<Rightarrow>
                  (let (chunks, ok) = save_rows C nonce limit (Suc n) rows []
                   in ((encrypted_chunk @ [newline]) # chunks, ok)))
           else save_rows C nonce limit n rows plain_buffer))"

definition save_table ::
    "'v codec \<Rightarrow> hash_order \<Rightarrow> (nat \<Rightarrow> string) \<Rightarrow> string \<Rightarrow> 'v table \<Rightarrow> disk_op list \<times> bool" where
  "save_table C ord nonce t table_data =
     (let folder_path = path_join base_dir t;
          (chunks, ok) = save_rows C nonce chunk_size_limit 0 (iter_map ord table_data) []
      in ([CreateDir folder_path, CreateStorage folder_path] @ map (AppendStorage folder_path) chunks @
            (if ok then [CreateWal folder_path] else []), ok))"

fun save_tables ::
    "'v codec \<Rightarrow> hash_order \<Rightarrow> (string \<Rightarrow> nat \<Rightarrow> string) \<Rightarrow> (string \<times> 'v table) list \<Rightarrow> disk_op list \<times> bool" where
  "save_tables C ord nonce [] = ([], True)"
| "save_tables C ord nonce ((t, table_data) # tables) =
     (let (ops, ok) = save_table C ord (nonce t) t table_data in
      if \<not> ok then (ops, False)
      else let (ops', ok') = save_tables C ord nonce tables in (ops @ ops', ok'))"

definition save_to_cold ::
    "'v codec \<Rightarrow> hash_order \<Rightarrow> (string \<Rightarrow> nat \<Rightarrow> string) \<Rightarrow> 'v kv_store \<Rightarrow> disk_op list \<times> bool" where
  "save_to_cold C ord nonce s = save_tables C ord nonce (iter_map ord s)"

section \<open>Loading\<close>

datatype 'a load = Loaded 'a | IoError | ProcessExit

definition load_line :: "'v codec \<Rightarrow> string \<Rightarrow> 'v table \<Rightarrow> 'v table" where
  "load_line C line table_data =
     (case split_once (CHR ''='') line of
        None \<Rightarrow> table_data
      | Some (key, json_text) \<Rightarrow>
          (case of_json C (trim json_text) of
             Some v \<Rightarrow> fmupd (trim key) v table_data
           | None \<Rightarrow> table_data))"

fun load_chunks :: "'v codec \<Rightarrow> string list \<Rightarrow> 'v table \<Rightarrow> 'v table load" where
  "load_chunks C [] table_data = Loaded table_data"
| "load_chunks C (encrypted_line # rest) table_data =
     (if \<not> utf8_valid encrypted_line then IoError
      else let trimmed_line = trim encrypted_line in
        if trimmed_line = [] then load_chunks C rest table_data
        else case decrypt C trimmed_line of
               Inr decrypted_content \<Rightarrow>
                 load_chunks C rest (fold (load_line C) (lines decrypted_content) table_data)
             | Inl _ \<Rightarrow> ProcessExit)"

fun replay_wal :: "'v codec \<Rightarrow> string list \<Rightarrow> 'v table \<Rightarrow> 'v table load" where
  "replay_wal C [] table_data = Loaded table_data"
| "replay_wal C (line # rest) table_data =
     (if \<not> utf8_valid line then IoError
      else replay_wal C rest
        (case wal_of_json C line of
           Some entry \<Rightarrow>
             if op entry = ''put'' then
               (case wal_value entry of Some v \<Rightarrow> fmupd (wal_key entry) v table_data | None \<Rightarrow> table_data)
             else if op entry = ''delete'' then fmdrop (wal_key entry) table_data
             else table_data
         | None \<Rightarrow> table_data))"

definition load_table :: "'v codec \<Rightarrow> table_dir \<Rightarrow> 'v table load" where
  "load_table C dir =
     (case (case storage_db dir of
              None \<Rightarrow> Loaded fmempty
            | Some content \<Rightarrow> load_chunks C (lines content) fmempty) of
        Loaded table_data \<Rightarrow>
          (case wal_log dir of
             None \<Rightarrow> Loaded table_data
           | Some content \<Rightarrow> replay_wal C (lines content) table_data)
      | IoError \<Rightarrow> IoError
      | ProcessExit \<Rightarrow> ProcessExit)"

fun load_tables :: "'v codec \<Rightarrow> (string \<times> table_dir) list \<Rightarrow> 'v kv_store \<Rightarrow> 'v kv_store load" where
  "load_tables C [] s = Loaded s"
| "load_tables C ((t, dir) # rest) s =
     (case load_table C dir of
        Loaded table_data \<Rightarrow> load_tables C rest (fmupd t table_data s)
      | IoError \<Rightarrow> IoError
      | ProcessExit \<Rightarrow> ProcessExit)"

fun apply_tables :: "hash_order \<Rightarrow> (string \<times> 'v table) list \<Rightarrow> 'v kv_store \<Rightarrow> 'v kv_store" where
  "apply_tables ord [] s = s"
| "apply_tables ord ((t, table_data) # rest) s =
     apply_tables ord rest (fmupd t (insert_all (iter_map ord table_data) (lookup_or fmempty s t)) s)"

text \<open>The folders directly inside the data directory, by name: what \<^verbatim>\<open>read_dir\<close> lists.\<close>

definition data_entries :: "disk \<Rightarrow> (string, table_dir) fmap" where
  "data_entries d = fmap_of_list (List.map_filter
     (\<lambda>(f, dir). case f of InCwd [parent, name] \<Rightarrow> if parent = ''data'' then Some (name, dir) else None | _ \<Rightarrow> None)
     (sorted_list_of_fmap d))"

definition load_all_tables :: "'v codec \<Rightarrow> hash_order \<Rightarrow> disk \<Rightarrow> 'v kv_store load" where
  "load_all_tables C ord d =
     (case load_tables C (iter_map ord (data_entries d)) fmempty of
        Loaded new_store \<Rightarrow> Loaded (apply_tables ord (iter_map ord new_store) fmempty)
      | IoError \<Rightarrow> IoError
      | ProcessExit \<Rightarrow> ProcessExit)"

section \<open>Lemmas on text\<close>

lemma trim_by_cons: "p a \<Longrightarrow> trim_by p q r (a # s) = trim_by p q r s"
proof -
  assume a: "p a"
  show ?thesis
  proof (cases s)
    case (Cons b s')
    with a show ?thesis
      by (cases s') simp_all
  qed (simp add: a)
qed

lemma length_trim_by: "length (trim_by p q r s) \<le> length s"
  by (induction p q r s rule: trim_by.induct) (simp_all add: le_SucI)

lemma trim_by_eq: "length (trim_by p q r s) = length s \<Longrightarrow> trim_by p q r s = s"
proof (induction p q r s rule: trim_by.induct)
  case (4 p q r a b c s)
  have "length (trim_by p q r (b # c # s)) < length (a # b # c # s)"
    "length (trim_by p q r (c # s)) < length (a # b # c # s)"
    "length (trim_by p q r s) < length (a # b # c # s)"
    using length_trim_by [of p q r "b # c # s"] length_trim_by [of p q r "c # s"] length_trim_by [of p q r s]
    by simp_all
  with 4(4) show ?case
    by (auto split: if_splits)
qed (simp_all split: if_splits)

lemma trim_fixed:
  assumes "trim s = s"
  shows "trim_start s = s" and "trim_end s = s"
proof -
  have "length (trim_end t) \<le> length t" for t
    unfolding trim_end_def using length_trim_by [of _ _ _ "rev t"] by simp
  then have "length (trim_start s) \<le> length s" and "length (trim s) \<le> length (trim_start s)"
    by (simp_all add: trim_def trim_start_def length_trim_by)
  with assms have "length (trim_start s) = length s"
    by simp
  then show start: "trim_start s = s"
    by (simp add: trim_start_def trim_by_eq)
  with assms show "trim_end s = s"
    by (simp add: trim_def)
qed

lemma space_ws [simp]: "ws1 (CHR '' '')" "\<not> ws2 a (CHR '' '')" "\<not> ws3 a b (CHR '' '')"
  by (simp_all add: ws1_def ws2_def ws3_def Let_def)

lemma trim_by_snoc_space:
  "trim_by ws1 ws2 ws3 k = k \<Longrightarrow> k \<noteq> [] \<Longrightarrow> trim_by ws1 ws2 ws3 (k @ '' '') = k @ '' ''"
proof (induction ws1 ws2 ws3 k rule: trim_by.induct)
  case (4 a b c s)
  have "length (trim_by ws1 ws2 ws3 (b # c # s)) \<le> length (b # c # s)"
    "length (trim_by ws1 ws2 ws3 (c # s)) \<le> length (c # s)"
    "length (trim_by ws1 ws2 ws3 s) \<le> length s"
    by (rule length_trim_by)+
  with 4(4) have "\<not> ws1 a \<and> \<not> ws2 a b \<and> \<not> ws3 a b c"
    by (auto split: if_splits dest: arg_cong [where f = length])
  then show ?case
    by simp
next
  case (3 a b)
  then show ?case
    using length_trim_by [of ws1 ws2 ws3 "[b]"]
    by (auto split: if_splits dest: arg_cong [where f = length])
qed (simp_all split: if_splits)

text \<open>What a row's key and JSON text become after the blanks around the equals sign.\<close>

lemma trim_key: "trim k = k \<Longrightarrow> trim (k @ '' '') = k"
proof -
  assume k: "trim k = k"
  have tail: "trim_end (k @ '' '') = k"
    using trim_fixed(2) [OF k] by (simp add: trim_end_def trim_by_cons)
  show ?thesis
  proof (cases "k = []")
    case True
    then show ?thesis
      by (simp add: trim_def trim_start_def trim_end_def)
  next
    case False
    with tail trim_fixed(1) [OF k] show ?thesis
      by (simp add: trim_def trim_start_def trim_by_snoc_space)
  qed
qed

lemma trim_space: "trim (CHR '' '' # s) = trim s"
  by (simp add: trim_def trim_start_def trim_by_cons)

definition graphic :: "char \<Rightarrow> bool" where
  "graphic c \<longleftrightarrow> 33 \<le> (of_char c :: nat) \<and> of_char c \<le> (126 :: nat)"

lemma graphic_ws: "graphic a \<Longrightarrow> \<not> ws1 a \<and> \<not> ws2 a b \<and> \<not> ws3 a b c"
  "graphic a \<Longrightarrow> \<not> ws2 b a \<and> \<not> ws3 c b a"
  by (auto simp: graphic_def ws1_def ws2_def ws3_def Let_def)

lemma trim_by_stop:
  assumes "\<not> p a" and "\<And>b. \<not> q a b" and "\<And>b c. \<not> r a b c"
  shows "trim_by p q r (a # s) = a # s"
proof (cases s)
  case (Cons b s')
  with assms show ?thesis
    by (cases s') simp_all
qed (simp add: assms)

lemma trim_graphic_ends:
  assumes "graphic a" and "graphic z"
  shows "trim (a # s @ [z]) = a # s @ [z]" and "trim [a] = [a]"
proof -
  have "trim_start (a # t) = a # t" for t
    unfolding trim_start_def using graphic_ws(1) [OF assms(1)] by (intro trim_by_stop) auto
  moreover have "trim_end (t @ [z]) = t @ [z]" "trim_end [a] = [a]" for t
    unfolding trim_end_def using graphic_ws [OF assms(2)] graphic_ws [OF assms(1)]
    by (simp_all add: trim_by_stop)
  ultimately show "trim (a # s @ [z]) = a # s @ [z]" and "trim [a] = [a]"
    by (simp_all add: trim_def) (metis append_Cons)
qed

lemma trim_graphic: "(\<And>c. c \<in> set s \<Longrightarrow> graphic c) \<Longrightarrow> trim s = s"
proof (cases s)
  case (Cons a t)
  moreover assume "\<And>c. c \<in> set s \<Longrightarrow> graphic c"
  ultimately show ?thesis
    by (cases t rule: rev_cases) (auto intro: trim_graphic_ends)
qed (simp add: trim_def trim_start_def trim_end_def)

lemma graphic_newline [simp]: "\<not> graphic newline" "\<not> graphic (CHR 0x0D)"
  by (simp_all add: graphic_def newline_def)

text \<open>Lines that were written one by one are read back.\<close>

lemma lines_cons:
  assumes "newline \<notin> set l" and "l \<noteq> [] \<Longrightarrow> last l \<noteq> CHR 0x0D"
  shows "lines (l @ newline # rest) = l # lines rest"
proof -
  have "takeWhile (\<lambda>c. c \<noteq> newline) (l @ newline # rest) = l"
    and "dropWhile (\<lambda>c. c \<noteq> newline) (l @ newline # rest) = newline # rest"
    using assms(1) by (simp_all add: takeWhile_append dropWhile_append)
  then show ?thesis
    using assms(2) by (subst lines.simps) (auto simp: strip_cr_def)
qed

lemma lines_concat:
  assumes "\<And>l. l \<in> set ls \<Longrightarrow> newline \<notin> set l \<and> (l \<noteq> [] \<longrightarrow> last l \<noteq> CHR 0x0D)"
  shows "lines (concat (map (\<lambda>l. l @ [newline]) ls)) = ls"
  using assms
proof (induction ls)
  case (Cons l ls)
  then show ?case
    using lines_cons [of l] by simp
qed (simp add: lines.simps)

lemma utf8_valid_append: "utf8_valid a \<Longrightarrow> utf8_valid (a @ b) = utf8_valid b"
proof (induction a rule: utf8_valid.induct)
  case (2 a s)
  then show ?case
    by (auto split: if_splits list.splits)
qed simp

lemma graphic_ascii: "graphic c \<Longrightarrow> byte_in 0 0x7F c"
  by (simp add: graphic_def byte_in_def)

lemma utf8_valid_graphic: "(\<And>c. c \<in> set s \<Longrightarrow> graphic c) \<Longrightarrow> utf8_valid s"
  by (induction s) (simp_all add: graphic_ascii)

lemma split_once_append: "c \<notin> set k \<Longrightarrow> split_once c (k @ c # rest) = Some (k, rest)"
  by (simp add: split_once_def takeWhile_append dropWhile_append)

section \<open>Saved rows load again\<close>

text \<open>
  What saving relies on: decryption inverts encryption, base64 decoding inverts encoding, and
  base64 text consists of graphic ASCII characters.
\<close>

definition codec_sound :: "'v codec \<Rightarrow> bool" where
  "codec_sound C \<longleftrightarrow>
     (\<forall>n p c. aes_encrypt C n p = Some c \<longrightarrow> aes_decrypt C n c = Some p) \<and>
     (\<forall>s. b64_decode C (b64_encode C s) = Some s) \<and>
     (\<forall>s. s \<noteq> [] \<longrightarrow> b64_encode C s \<noteq> []) \<and>
     (\<forall>s. \<forall>x \<in> set (b64_encode C s). graphic x)"

text \<open>
  A record survives the text format if its key has no equals sign, no line break and no white
  space at its ends, and its JSON is the usual one-line object text that parses back.
\<close>

definition storable_key :: "string \<Rightarrow> bool" where
  "storable_key k \<longleftrightarrow> CHR ''='' \<notin> set k \<and> newline \<notin> set k \<and> trim k = k \<and> utf8_valid k"

definition storable_value :: "'v codec \<Rightarrow> 'v versioned_value \<Rightarrow> bool" where
  "storable_value C v \<longleftrightarrow>
     (case json_of C v of
        None \<Rightarrow> False
      | Some j \<Rightarrow> of_json C j = Some v \<and> length j \<ge> 2 \<and> hd j = CHR ''{'' \<and> last j = CHR ''}'' \<and>
          newline \<notin> set j \<and> utf8_valid j)"

definition row_line :: "'v codec \<Rightarrow> string \<times> 'v versioned_value \<Rightarrow> string" where
  "row_line C row = fst row @ '' = '' @ the (json_of C (snd row))"

definition storable_rows :: "'v codec \<Rightarrow> (string \<times> 'v versioned_value) list \<Rightarrow> bool" where
  "storable_rows C rows \<longleftrightarrow> (\<forall>(k, v) \<in> set rows. storable_key k \<and> storable_value C v)"

definition row_texts :: "'v codec \<Rightarrow> (string \<times> 'v versioned_value) list \<Rightarrow> string" where
  "row_texts C rows = concat (map (\<lambda>l. l @ [newline]) (map (row_line C) rows))"

lemma row_texts_simps [simp]:
  "row_texts C [] = []" "row_texts C (row # rows) = row_line C row @ [newline] @ row_texts C rows"
  "row_texts C rows = [] \<longleftrightarrow> rows = []"
  by (simp_all add: row_texts_def) (cases rows; force)

lemma row_texts_snoc: "row_texts C (rows @ [row]) = row_texts C rows @ row_line C row @ [newline]"
  by (simp add: row_texts_def)

lemma json_object_text:
  assumes "length j \<ge> 2" and "hd j = CHR ''{''" and "last j = CHR ''}''"
  shows "trim j = j"
proof -
  obtain m where "j = CHR ''{'' # m @ [CHR ''}'']"
    using assms by (cases j; cases "tl j" rule: rev_cases) auto
  then show ?thesis
    using trim_graphic_ends(1) [of "CHR ''{''" "CHR ''}''" m] by (simp add: graphic_def)
qed

lemma storable_json:
  assumes "storable_value C v"
  obtains j where "json_of C v = Some j" "of_json C j = Some v" "trim j = j" "newline \<notin> set j"
    "j \<noteq> []" "last j = CHR ''}''" "utf8_valid j"
  using assms json_object_text by (fastforce simp: storable_value_def split: option.splits)

lemma load_row:
  assumes "storable_key k" and "storable_value C v"
  shows "load_line C (row_line C (k, v)) d = fmupd k v d"
proof -
  obtain j where j: "json_of C v = Some j" "of_json C j = Some v" "trim j = j"
    using storable_json [OF assms(2)] by metis
  have "split_once (CHR ''='') ((k @ '' '') @ CHR ''='' # CHR '' '' # j) = Some (k @ '' '', CHR '' '' # j)"
    using assms(1) by (intro split_once_append) (simp add: storable_key_def)
  with j assms(1) show ?thesis
    by (simp add: load_line_def row_line_def trim_key trim_space storable_key_def)
qed

lemma row_line_text:
  assumes "storable_key k" and "storable_value C v"
  shows "newline \<notin> set (row_line C (k, v)) \<and> last (row_line C (k, v)) \<noteq> CHR 0x0D \<and>
    utf8_valid (row_line C (k, v))"
proof -
  obtain j where j: "json_of C v = Some j" "newline \<notin> set j" "j \<noteq> []" "last j = CHR ''}''" "utf8_valid j"
    using storable_json [OF assms(2)] by metis
  have "utf8_valid (k @ '' = '' @ j)"
    using assms(1) j(5) by (simp add: utf8_valid_append storable_key_def byte_in_def)
  with j assms(1) show ?thesis
    by (simp add: row_line_def storable_key_def newline_def)
qed

lemma lines_row_texts: "storable_rows C rows \<Longrightarrow> lines (row_texts C rows) = map (row_line C) rows"
  unfolding row_texts_def using row_line_text by (intro lines_concat) (fastforce simp: storable_rows_def)

lemma utf8_row_texts: "storable_rows C rows \<Longrightarrow> utf8_valid (row_texts C rows)"
proof (induction rows)
  case (Cons row rows)
  obtain k v where row: "row = (k, v)"
    by fastforce
  with Cons row_line_text [of k C v] have "utf8_valid (row_line C row)" "utf8_valid (row_texts C rows)"
    by (auto simp: storable_rows_def)
  then show ?case
    by (simp add: utf8_valid_append newline_def byte_in_def)
qed simp

lemma load_row_texts:
  "storable_rows C rows \<Longrightarrow> fold (load_line C) (lines (row_texts C rows)) d = insert_all rows d"
proof (simp only: lines_row_texts, induction rows arbitrary: d)
  case (Cons row rows)
  then show ?case
    by (cases row) (auto simp: storable_rows_def load_row)
qed simp

lemma codec_soundD:
  assumes "codec_sound C"
  shows "aes_encrypt C n p = Some c \<Longrightarrow> aes_decrypt C n c = Some p"
    and "b64_decode C (b64_encode C s) = Some s"
    and "s \<noteq> [] \<Longrightarrow> b64_encode C s \<noteq> []"
    and "x \<in> set (b64_encode C s) \<Longrightarrow> graphic x"
  using assms by (auto simp: codec_sound_def)

lemma decrypt_encrypted:
  assumes "codec_sound C" and "encrypt C n p = Inr c" and "length n = 12" and "utf8_valid p"
  shows "decrypt C c = Inr p" and "c \<noteq> []" and "\<forall>x \<in> set c. graphic x"
proof -
  from assms(2) obtain ct where ct: "aes_encrypt C n p = Some ct" "c = b64_encode C (n @ ct)"
    by (auto simp: encrypt_def split: option.splits)
  have "n @ ct \<noteq> []"
    using assms(3) by auto
  with ct codec_soundD(3,4) [OF assms(1)] show "c \<noteq> []" and "\<forall>x \<in> set c. graphic x"
    by simp_all
  have "b64_decode C c = Some (n @ ct)" and "aes_decrypt C n ct = Some p"
    using codec_soundD(1,2) [OF assms(1)] ct by simp_all
  with assms(3,4) show "decrypt C c = Inr p"
    by (simp add: decrypt_def)
qed

lemma load_encrypted_chunk:
  assumes "codec_sound C" and "encrypt C n (row_texts C rows) = Inr c" and "length n = 12"
    and "storable_rows C rows"
  shows "load_chunks C (c # cs) d = load_chunks C cs (insert_all rows d)"
proof -
  note c = decrypt_encrypted [OF assms(1-3) utf8_row_texts [OF assms(4)]]
  have "trim c = c" and "utf8_valid c"
    using c(3) trim_graphic utf8_valid_graphic by blast+
  with c load_row_texts [OF assms(4)] show ?thesis
    by simp
qed

lemma insert_all_append: "insert_all (xs @ ys) m = insert_all ys (insert_all xs m)"
  by (induction xs m rule: insert_all.induct) auto

lemma save_rows_step:
  "json_of C v = Some j \<Longrightarrow>
   save_rows C nonce limit n ((k, v) # rows) (row_texts C pending) =
     (let plain_buffer = row_texts C (pending @ [(k, v)]) in
      if length plain_buffer \<ge> limit then
        (case encrypt C (nonce n) plain_buffer of
           Inl _ \<Rightarrow> ([], False)
         | Inr c \<Rightarrow> (let (chunks, ok) = save_rows C nonce limit (Suc n) rows [] in ((c @ [newline]) # chunks, ok)))
      else save_rows C nonce limit n rows plain_buffer)"
  by (simp add: row_texts_snoc row_line_def)

text \<open>
  The chunks of a completed loop, read back, insert rows: what it means, that the last chunk does,
  and that a full chunk in front does.
\<close>

definition chunks_hold :: "'v codec \<Rightarrow> string list \<Rightarrow> (string \<times> 'v versioned_value) list \<Rightarrow> bool" where
  "chunks_hold C chunks rows \<longleftrightarrow>
     (\<exists>cs. chunks = map (\<lambda>c. c @ [newline]) cs \<and> (\<forall>c \<in> set cs. \<forall>x \<in> set c. graphic x) \<and>
        (\<forall>d. load_chunks C cs d = Loaded (insert_all rows d)))"

lemma chunks_hold_none: "chunks_hold C [] []"
  by (simp add: chunks_hold_def)

lemma chunks_hold_cons:
  assumes "codec_sound C" and "encrypt C n (row_texts C rows) = Inr c" and "length n = 12"
    and "storable_rows C rows" and "chunks_hold C chunks rows'"
  shows "chunks_hold C ((c @ [newline]) # chunks) (rows @ rows')"
proof -
  obtain cs where "chunks = map (\<lambda>c. c @ [newline]) cs" "\<forall>c \<in> set cs. \<forall>x \<in> set c. graphic x"
    "\<And>d. load_chunks C cs d = Loaded (insert_all rows' d)"
    using assms(5) by (auto simp: chunks_hold_def)
  with load_encrypted_chunk [OF assms(1-4)] decrypt_encrypted(3) [OF assms(1-3) utf8_row_texts [OF assms(4)]]
  show ?thesis
    unfolding chunks_hold_def by (intro exI [of _ "c # cs"]) (simp add: insert_all_append)
qed

lemma save_rows_load:
  assumes "codec_sound C" and "\<And>i. length (nonce i) = 12"
    and "save_rows C nonce limit n rows (row_texts C pending) = (chunks, True)"
    and "storable_rows C (pending @ rows)"
  shows "chunks_hold C chunks (pending @ rows)"
  using assms(3,4)
proof (induction rows arbitrary: n pending chunks)
  case Nil
  show ?case
  proof (cases "pending = []")
    case True
    with Nil show ?thesis
      by (simp add: chunks_hold_none)
  next
    case False
    with Nil obtain c where "encrypt C (nonce n) (row_texts C pending) = Inr c" "chunks = [c @ [newline]]"
      by (auto split: sum.splits if_splits)
    with Nil(2) chunks_hold_cons [OF assms(1) _ assms(2) _ chunks_hold_none] show ?thesis
      by simp
  qed
next
  case (Cons row rows)
  obtain k v j where row: "row = (k, v)" and j: "json_of C v = Some j"
    using Cons.prems(2) storable_json by (cases row) (fastforce simp: storable_rows_def)
  note step = Cons.prems(1) [unfolded row, unfolded save_rows_step [OF j], folded row]
  have st: "storable_rows C (pending @ [row])" "storable_rows C ([] @ rows)"
    using Cons.prems(2) by (auto simp: storable_rows_def)
  show ?case
  proof (cases "length (row_texts C (pending @ [row])) \<ge> limit")
    case True
    with step obtain c chunks' where
      c: "encrypt C (nonce n) (row_texts C (pending @ [row])) = Inr c"
      and rest: "save_rows C nonce limit (Suc n) rows (row_texts C []) = (chunks', True)"
      and chunks: "chunks = (c @ [newline]) # chunks'"
      by (auto simp: Let_def split: sum.splits prod.splits)
    from chunks_hold_cons [OF assms(1) c assms(2) st(1) Cons.IH [OF rest st(2)]] chunks show ?thesis
      by simp
  next
    case False
    with step have "save_rows C nonce limit n rows (row_texts C (pending @ [row])) = (chunks, True)"
      by (simp add: Let_def)
    from Cons.IH [OF this] Cons.prems(2) show ?thesis
      by simp
  qed
qed

section \<open>The disk\<close>

lemma run_ops_simps [simp]:
  "run_ops [] d = d" "run_ops (x # ops) d = run_ops ops (apply_op x d)"
  "run_ops (ops @ ops') d = run_ops ops' (run_ops ops d)"
  by (simp_all add: run_ops_def)

lemma map_of_iter_map: "map_of (iter_map ord m) = fmlookup m"
  by (metis fmap_of_iter_map fmlookup_of_list ext)

lemma data_entries_lookup [simp]: "fmlookup (data_entries d) t = fmlookup d (InCwd [''data'', t])"
proof -
  let ?g = "\<lambda>(f, dir). case f of InCwd [parent, name] \<Rightarrow> if parent = ''data'' then Some (name, dir) else None | _ \<Rightarrow> None"
  have "map_of (List.map_filter ?g xs) t = map_of xs (InCwd [''data'', t])" for xs :: "(folder \<times> table_dir) list"
    by (induction xs) (auto simp: map_filter_simps split: folder.splits list.splits)
  then show ?thesis
    by (simp add: data_entries_def fmlookup_of_list)
qed

fun op_path :: "disk_op \<Rightarrow> string" where
  "op_path (CreateDir p) = p"
| "op_path (CreateStorage p) = p"
| "op_path (AppendStorage p _) = p"
| "op_path (CreateWal p) = p"

text \<open>Creating folders keeps what exists and creates the folder of the path.\<close>

lemma make_dir_lookup:
  "fmlookup (make_dir f d) g =
     (if g = f \<and> fmlookup d f = None then Some \<lparr>storage_db = None, wal_log = None\<rparr> else fmlookup d g)"
  by (auto simp: make_dir_def split: option.splits)

lemma make_dir_keeps: "fmlookup d f = Some x \<Longrightarrow> fmlookup (make_dir g d) f = Some x"
  by (auto simp: make_dir_lookup)

lemma make_dirs_keep: "fmlookup d f = Some x \<Longrightarrow> fmlookup (fold (\<lambda>n. make_dir (g n)) ns d) f = Some x"
  by (induction ns arbitrary: d) (simp_all add: make_dir_keeps)

lemma create_dir_keeps: "fmlookup d f = Some x \<Longrightarrow> fmlookup (create_dir_all p d) f = Some x"
  unfolding create_dir_all_def Let_def by (rule make_dirs_keep)

lemma make_dirs_empty:
  "fmlookup d f = None \<Longrightarrow> fmlookup (fold (\<lambda>n. make_dir (g n)) ns d) f \<in> {None, Some \<lparr>storage_db = None, wal_log = None\<rparr>}"
proof (induction ns arbitrary: d)
  case (Cons n ns)
  show ?case
  proof (cases "fmlookup (make_dir (g n) d) f")
    case None
    with Cons.IH show ?thesis
      by simp
  next
    case (Some x)
    with Cons.prems have "x = \<lparr>storage_db = None, wal_log = None\<rparr>"
      by (simp add: make_dir_lookup split: if_splits)
    with make_dirs_keep [OF Some, of g ns] show ?thesis
      by simp
  qed
qed simp

lemma create_dir_creates:
  "fmlookup (create_dir_all p d) (folder_at p) =
     (case fmlookup d (folder_at p) of None \<Rightarrow> Some \<lparr>storage_db = None, wal_log = None\<rparr> | Some x \<Rightarrow> Some x)"
proof (cases "fmlookup d (folder_at p)")
  case None
  let ?cs = "split_slashes p"
  have range: "[1..<Suc (length ?cs)] = [1..<length ?cs] @ [length ?cs]"
    using split_slashes_not_empty [of p] by (simp add: Suc_le_eq)
  have "fmlookup (create_dir_all p d) (folder_at p) \<noteq> None"
    unfolding create_dir_all_def Let_def range fold_append folder_at_def by (simp add: make_dir_lookup)
  moreover have "fmlookup (create_dir_all p d) (folder_at p) \<in> {None, Some \<lparr>storage_db = None, wal_log = None\<rparr>}"
    unfolding create_dir_all_def Let_def by (rule make_dirs_empty [OF None])
  ultimately show ?thesis
    using None by auto
qed (simp add: create_dir_keeps)

lemma create_dir_component:
  assumes "component t"
  shows "create_dir_all (table_path t) d =
    make_dir (InCwd [''data'', t]) (make_dir (InCwd [''data'']) (make_dir (InCwd []) d))"
proof -
  have "[1..<Suc (length [''.'', ''data'', t])] = [1, 2, 3]"
    by (simp add: upt_rec numeral_eq_Suc)
  moreover have "\<not> starts_with ''/'' (table_path t)"
    by (simp add: component_path [OF assms])
  moreover have "resolve False (take 1 [''.'', ''data'', t]) = InCwd []"
    "resolve False (take 2 [''.'', ''data'', t]) = InCwd [''data'']"
    "take 3 [''.'', ''data'', t] = [''.'', ''data'', t]"
    by (simp_all add: resolve_def)
  ultimately show ?thesis
    unfolding create_dir_all_def component_segments [OF assms] Let_def
    using component_resolved [OF assms] by (simp del: take.simps upt_Suc starts_slash)
qed

text \<open>Operations in one folder keep what is in the others.\<close>

lemma apply_op_keeps:
  assumes "fmlookup d f = Some x" and "folder_at (op_path y) \<noteq> f"
  shows "fmlookup (apply_op y d) f = Some x"
  using assms by (cases y) (auto simp: create_dir_keeps split: option.splits)

lemma run_ops_keep:
  "fmlookup d f = Some x \<Longrightarrow> \<forall>y \<in> set ops. folder_at (op_path y) \<noteq> f \<Longrightarrow> fmlookup (run_ops ops d) f = Some x"
  by (induction ops arbitrary: d) (simp_all add: apply_op_keeps)

lemma save_table_path: "save_table C ord nonce t tbl = (ops, ok) \<Longrightarrow> y \<in> set ops \<Longrightarrow> op_path y = table_path t"
  by (auto simp: save_table_def table_path_def Let_def split: prod.splits if_splits)

lemma run_appends:
  assumes "fmlookup d (folder_at p) = Some \<lparr>storage_db = Some x, wal_log = w\<rparr>"
  shows "fmlookup (run_ops (map (AppendStorage p) chunks) d) (folder_at p) =
    Some \<lparr>storage_db = Some (x @ concat chunks), wal_log = w\<rparr>"
  using assms
proof (induction chunks arbitrary: d x)
  case (Cons c chunks)
  let ?d = "apply_op (AppendStorage p c) d"
  have "fmlookup ?d (folder_at p) = Some \<lparr>storage_db = Some (x @ c), wal_log = w\<rparr>"
    using Cons.prems by simp
  with Cons.IH [of ?d "x @ c"] show ?case
    by simp
qed simp

lemma created_storage:
  "\<exists>w. fmlookup (run_ops [CreateDir p, CreateStorage p] d) (folder_at p) = Some \<lparr>storage_db = Some '''', wal_log = w\<rparr>"
proof (cases "fmlookup d (folder_at p)")
  case (Some dir)
  then show ?thesis
    by (cases dir) (simp add: create_dir_creates)
qed (simp add: create_dir_creates)

text \<open>What a completed save of a table leaves in its folder, and that it loads.\<close>

definition table_text :: "'v codec \<Rightarrow> hash_order \<Rightarrow> (nat \<Rightarrow> string) \<Rightarrow> 'v table \<Rightarrow> string" where
  "table_text C ord nonce tbl = concat (fst (save_rows C nonce chunk_size_limit 0 (iter_map ord tbl) []))"

lemma save_table_files:
  assumes "save_table C ord nonce t tbl = (ops, True)"
  shows "fmlookup (run_ops ops d) (table_folder t) =
    Some \<lparr>storage_db = Some (table_text C ord nonce tbl), wal_log = Some ''''\<rparr>"
proof -
  let ?p = "table_path t"
  obtain chunks where rows: "save_rows C nonce chunk_size_limit 0 (iter_map ord tbl) [] = (chunks, True)"
    and ops: "ops = [CreateDir ?p, CreateStorage ?p] @ map (AppendStorage ?p) chunks @ [CreateWal ?p]"
    using assms by (auto simp: save_table_def table_path_def Let_def split: prod.splits if_splits)
  obtain w where w: "fmlookup (run_ops [CreateDir ?p, CreateStorage ?p] d) (folder_at ?p) =
      Some \<lparr>storage_db = Some '''', wal_log = w\<rparr>"
    using created_storage by blast
  let ?d = "run_ops (map (AppendStorage ?p) chunks) (run_ops [CreateDir ?p, CreateStorage ?p] d)"
  have "fmlookup ?d (folder_at ?p) = Some \<lparr>storage_db = Some (concat chunks), wal_log = w\<rparr>"
    using run_appends [OF w, of chunks] by simp
  moreover have "run_ops ops d = apply_op (CreateWal ?p) ?d"
    by (simp add: ops)
  ultimately show ?thesis
    unfolding table_text_def rows table_folder_def by (simp del: apply_op.simps(1-3))
qed

lemma table_text_loads:
  assumes "codec_sound C" and "\<And>i. length (nonce i) = 12" and "storable_rows C (iter_map ord tbl)"
    and "snd (save_rows C nonce chunk_size_limit 0 (iter_map ord tbl) [])"
  shows "load_table C \<lparr>storage_db = Some (table_text C ord nonce tbl), wal_log = Some ''''\<rparr> = Loaded tbl"
proof -
  obtain chunks where rows: "save_rows C nonce chunk_size_limit 0 (iter_map ord tbl) [] = (chunks, True)"
    using assms(4) by (metis prod.collapse)
  then have "save_rows C nonce chunk_size_limit 0 (iter_map ord tbl) (row_texts C []) = (chunks, True)"
    by simp
  from save_rows_load [OF assms(1,2) this] assms(3) obtain cs where
    cs: "chunks = map (\<lambda>c. c @ [newline]) cs" "\<forall>c \<in> set cs. \<forall>x \<in> set c. graphic x"
    and data: "load_chunks C cs fmempty = Loaded (insert_all (iter_map ord tbl) fmempty)"
    by (auto simp: chunks_hold_def)
  have "lines (concat chunks) = cs"
    unfolding cs(1)
  proof (rule lines_concat)
    fix l
    assume "l \<in> set cs"
    then have "\<forall>x \<in> set l. graphic x"
      using cs(2) by blast
    then show "newline \<notin> set l \<and> (l \<noteq> [] \<longrightarrow> last l \<noteq> CHR 0x0D)"
      using graphic_newline last_in_set by metis
  qed
  with data show ?thesis
    unfolding load_table_def table_text_def rows by (simp add: lines.simps [of "[]"])
qed

lemma save_table_ok:
  "save_table C ord nonce t tbl = (ops, ok) \<Longrightarrow> ok = snd (save_rows C nonce chunk_size_limit 0 (iter_map ord tbl) [])"
  by (auto simp: save_table_def Let_def split: prod.splits)

lemma save_table_load:
  assumes "codec_sound C" and "\<And>i. length (nonce i) = 12" and "storable_rows C (iter_map ord tbl)"
    and "save_table C ord nonce t tbl = (ops, True)"
  shows "\<exists>dir. fmlookup (run_ops ops d) (table_folder t) = Some dir \<and> load_table C dir = Loaded tbl"
proof -
  have "snd (save_rows C nonce chunk_size_limit 0 (iter_map ord tbl) [])"
    using save_table_ok [OF assms(4)] by simp
  from table_text_loads [OF assms(1-3) this] save_table_files [OF assms(4), of d] show ?thesis
    by (intro exI conjI)
qed

text \<open>Saving a table with a plain name does nothing to the folders of other names.\<close>

lemma apply_op_component:
  assumes "op_path y = table_path t" and "component t" and "f \<noteq> table_folder t"
    and "f \<noteq> InCwd []" and "f \<noteq> InCwd [''data'']"
  shows "fmlookup (apply_op y d) f = fmlookup d f"
proof -
  have "folder_at (table_path t) \<noteq> f" and "f \<noteq> InCwd [''data'', t]"
    using assms(2,3) component_folder [of t] by (auto simp: table_folder_def)
  with assms show ?thesis
    by (cases y) (auto simp: create_dir_component make_dir_lookup split: option.splits)
qed

lemma run_ops_component:
  assumes "\<forall>y \<in> set ops. \<exists>t. op_path y = table_path t \<and> component t \<and> f \<noteq> table_folder t"
    and "f \<noteq> InCwd []" and "f \<noteq> InCwd [''data'']"
  shows "fmlookup (run_ops ops d) f = fmlookup d f"
  using assms(1)
proof (induction ops arbitrary: d)
  case (Cons y ops)
  then obtain t where "op_path y = table_path t" "component t" "f \<noteq> table_folder t"
    by auto
  from apply_op_component [OF this assms(2,3)] Cons show ?case
    by simp
qed simp

lemma save_tables_load:
  assumes "codec_sound C" and "\<And>t i. length (nonce t i) = 12"
    and "distinct (map fst tables)" and "\<forall>(t, tbl) \<in> set tables. component t \<and> storable_rows C (iter_map ord tbl)"
    and "save_tables C ord nonce tables = (ops, True)"
  shows "case map_of tables t of
      Some tbl \<Rightarrow> \<exists>dir. fmlookup (run_ops ops d) (InCwd [''data'', t]) = Some dir \<and> load_table C dir = Loaded tbl
    | None \<Rightarrow> fmlookup (run_ops ops d) (InCwd [''data'', t]) = fmlookup d (InCwd [''data'', t])"
  using assms(3-5)
proof (induction tables arbitrary: ops d)
  case (Cons x tables)
  obtain t0 tbl0 where x: "x = (t0, tbl0)"
    by fastforce
  from Cons.prems(3) x obtain ops1 ops2 where s: "save_table C ord (nonce t0) t0 tbl0 = (ops1, True)"
    "save_tables C ord nonce tables = (ops2, True)" "ops = ops1 @ ops2"
    by (auto split: prod.splits if_splits)
  have plain: "component t0" and "storable_rows C (iter_map ord tbl0)"
    using Cons.prems(2) x by simp_all
  note first = save_table_load [OF assms(1,2) this(2) s(1), where d = d, unfolded component_folder [OF plain]]
  have rest: "case map_of tables t of
      Some tbl \<Rightarrow> \<exists>dir. fmlookup (run_ops ops d) (InCwd [''data'', t]) = Some dir \<and> load_table C dir = Loaded tbl
    | None \<Rightarrow> fmlookup (run_ops ops d) (InCwd [''data'', t]) = fmlookup (run_ops ops1 d) (InCwd [''data'', t])"
    using Cons.IH [OF _ _ s(2), of "run_ops ops1 d"] Cons.prems(1,2) unfolding s(3) run_ops_simps(3) by simp
  show ?case
  proof (cases "t = t0")
    case True
    with Cons.prems(1) x have "map_of tables t = None"
      by (simp add: map_of_eq_None_iff)
    with rest first True x show ?thesis
      by simp
  next
    case False
    then have "fmlookup (run_ops ops1 d) (InCwd [''data'', t]) = fmlookup d (InCwd [''data'', t])"
      using save_table_path [OF s(1)] plain component_folder [OF plain] by (intro run_ops_component) auto
    with rest False x show ?thesis
      by (simp split: option.splits)
  qed
qed simp

lemma map_of_map_keyed: "map_of (map (\<lambda>(k, v). (k, f k)) xs) k = map_option (\<lambda>_. f k) (map_of xs k)"
  by (induction xs) auto

lemma load_tables_all:
  assumes "\<forall>(t, dir) \<in> set dirs. load_table C dir = Loaded (f t)"
  shows "load_tables C dirs s = Loaded (insert_all (map (\<lambda>(t, dir). (t, f t)) dirs) s)"
  using assms by (induction dirs arbitrary: s) auto

lemma apply_tables_new:
  assumes "distinct (map fst xs)" and "\<forall>t \<in> fst ` set xs. fmlookup s t = None"
  shows "apply_tables ord xs s = insert_all xs s"
  using assms
proof (induction xs arbitrary: s)
  case (Cons x xs)
  obtain t tbl where x: "x = (t, tbl)"
    by fastforce
  with Cons.prems(2) have "lookup_or fmempty s t = fmempty"
    by (simp add: lookup_or_def)
  moreover have "apply_tables ord xs (fmupd t tbl s) = insert_all xs (fmupd t tbl s)"
    using Cons.prems x by (intro Cons.IH) auto
  ultimately show ?case
    by (simp add: x)
qed simp

text \<open>A disk on which every folder loads to its table loads to the store.\<close>

lemma load_all_tables_exact:
  assumes "\<And>t. case fmlookup s t of
      Some tbl \<Rightarrow> \<exists>dir. fmlookup d (InCwd [''data'', t]) = Some dir \<and> load_table C dir = Loaded tbl
    | None \<Rightarrow> fmlookup d (InCwd [''data'', t]) = None"
  shows "load_all_tables C ord d = Loaded s"
proof -
  let ?f = "\<lambda>t. the (fmlookup s t)"
  let ?new = "map (\<lambda>(t, dir). (t, ?f t)) (iter_map ord (data_entries d))"
  have dom: "fmlookup d (InCwd [''data'', t]) = None \<longleftrightarrow> fmlookup s t = None" for t
    using assms [of t] by (cases "fmlookup s t") auto
  have "load_table C dir = Loaded (?f t)" if "fmlookup d (InCwd [''data'', t]) = Some dir" for t dir
    using assms [of t] dom [of t] that by (cases "fmlookup s t") auto
  then have "\<forall>(t, dir) \<in> set (iter_map ord (data_entries d)). load_table C dir = Loaded (?f t)"
    by (auto simp: mem_iter_map)
  from load_tables_all [OF this]
  have load: "load_tables C (iter_map ord (data_entries d)) fmempty = Loaded (insert_all ?new fmempty)" .
  have keys: "map fst ?new = map fst (iter_map ord (data_entries d))"
    by (auto simp: case_prod_beta)
  have "fmlookup (insert_all ?new fmempty) t = fmlookup s t" for t
    using dom [of t] lookup_insert_all [of ?new fmempty t] map_of_map_keyed [of ?f "iter_map ord (data_entries d)" t]
    unfolding keys by (auto simp: distinct_iter_map map_of_iter_map split: option.splits)
  then have "insert_all ?new fmempty = s"
    by (intro fmap_ext)
  with load show ?thesis
    by (simp add: load_all_tables_def apply_tables_new distinct_iter_map)
qed

section \<open>A sample codec\<close>

text \<open>A cipher that shifts nothing, hexadecimal-style text, and JSON for records with the empty map.\<close>

definition sample_b64_char :: "char \<Rightarrow> string" where
  "sample_b64_char c = [char_of (65 + of_char c div (16 :: nat)), char_of (65 + of_char c mod (16 :: nat))]"

fun sample_b64_decode :: "string \<Rightarrow> string option" where
  "sample_b64_decode [] = Some []"
| "sample_b64_decode [a] = None"
| "sample_b64_decode (a # b # s) =
     map_option (Cons (char_of ((of_char a - 65) * 16 + (of_char b - 65 :: nat)))) (sample_b64_decode s)"

definition sample_codec :: "string versioned_value \<Rightarrow> string codec" where
  "sample_codec v =
     \<lparr>aes_encrypt = (\<lambda>n p. Some p), aes_decrypt = (\<lambda>n c. Some c),
      b64_encode = (\<lambda>s. concat (map sample_b64_char s)), b64_decode = sample_b64_decode,
      json_of = (\<lambda>w. if w = v then Some ''{}'' else None), of_json = (\<lambda>s. if s = ''{}'' then Some v else None),
      wal_of_json = (\<lambda>_. None)\<rparr>"

lemma sample_b64_char_code:
  "of_char (char_of (65 + of_char c div (16 :: nat))) - 65 = of_char c div (16 :: nat)"
  "of_char (char_of (65 + of_char c mod (16 :: nat))) - 65 = of_char c mod (16 :: nat)"
proof -
  have "of_char c < (16 * 16 :: nat)"
    using of_char_mod_256 [of c, where 'a = nat] mod_less_divisor [of 256 "of_char c :: nat"] by simp
  then have "of_char c div (16 :: nat) < 16"
    by (rule less_mult_imp_div_less)
  then show "of_char (char_of (65 + of_char c div (16 :: nat))) - 65 = of_char c div (16 :: nat)"
    by simp
  have "of_char c mod (16 :: nat) < 16"
    by simp
  then show "of_char (char_of (65 + of_char c mod (16 :: nat))) - 65 = of_char c mod (16 :: nat)"
    by simp
qed

lemma sample_b64_roundtrip: "sample_b64_decode (concat (map sample_b64_char s)) = Some s"
proof (induction s)
  case (Cons c s)
  have "sample_b64_decode (sample_b64_char c @ r) = map_option (Cons c) (sample_b64_decode r)" for r
    unfolding sample_b64_char_def append.simps sample_b64_decode.simps sample_b64_char_code div_mult_mod_eq
      char_of_char ..
  with Cons show ?case
    by simp
qed simp

lemma sample_codec_sound: "codec_sound (sample_codec v)"
proof -
  have "graphic x" if x: "x \<in> set (sample_b64_char c)" for x c
  proof -
    have "of_char c < (16 * 16 :: nat)"
      using of_char_mod_256 [of c, where 'a = nat] mod_less_divisor [of 256 "of_char c :: nat"] by simp
    then have "of_char c div (16 :: nat) < 16" and "of_char c mod (16 :: nat) < 16"
      by (auto intro: less_mult_imp_div_less)
    with x show ?thesis
      by (auto simp: sample_b64_char_def graphic_def)
  qed
  then show ?thesis
    by (auto simp: codec_sound_def sample_codec_def sample_b64_roundtrip sample_b64_char_def)
qed

section \<open>Properties of cold storage\<close>

text \<open>A save completes when every record serialises and every encryption succeeds.\<close>

lemma save_rows_ok:
  assumes "\<And>n p. aes_encrypt C n p \<noteq> None" and "\<forall>(k, v) \<in> set rows. json_of C v \<noteq> None"
  shows "snd (save_rows C nonce limit n rows buf)"
  using assms(2)
proof (induction rows arbitrary: n buf)
  case Nil
  then show ?case
    using assms(1) [of "nonce n" buf] by (auto simp: encrypt_def)
next
  case (Cons row rows)
  obtain k v where row: "row = (k, v)"
    by fastforce
  with Cons.prems obtain j where j: "json_of C v = Some j"
    by auto
  obtain ct where "aes_encrypt C (nonce n) (buf @ k @ '' = '' @ j @ [newline]) = Some ct"
    using assms(1) by blast
  with Cons j row show ?case
    by (simp add: encrypt_def Let_def case_prod_beta)
qed

lemma save_completes:
  assumes "\<And>n p. aes_encrypt C n p \<noteq> None" and "\<And>t k v. store_get t k s = Some v \<Longrightarrow> json_of C v \<noteq> None"
  shows "snd (save_to_cold C ord nonce s)"
proof -
  have "snd (save_tables C ord nonce tables)" if "set tables \<subseteq> set (iter_map ord s)" for tables
    using that
  proof (induction tables)
    case (Cons x tables)
    obtain t tbl where x: "x = (t, tbl)"
      by fastforce
    with Cons.prems have "fmlookup s t = Some tbl"
      by (simp add: mem_iter_map)
    then have "\<forall>(k, v) \<in> set (iter_map ord tbl). json_of C v \<noteq> None"
      using assms(2) [of t] by (auto simp: mem_iter_map store_get_def)
    from save_rows_ok [OF assms(1) this, of "nonce t" chunk_size_limit 0 "[]"] Cons x show ?case
      by (auto simp: save_table_def Let_def split: prod.splits)
  qed simp
  then show ?thesis
    by (simp add: save_to_cold_def)
qed

text \<open>
  C14: what was saved is loaded. If every table of the store has a plain name (a single path
  component) and a save of the store completes, then loading the disk afterwards, whatever it held
  before in the folders of those tables, gives back exactly the store: every table, every record,
  nothing else. The data directory must hold no folders of other names. This holds for keys and
  values that survive the text format, in any iteration order, and for any number and size of chunks.
\<close>

theorem saved_store_loads:
  assumes "codec_sound C" and "\<And>t i. length (nonce t i) = 12" and "\<And>t. t |\<in>| fmdom s \<Longrightarrow> component t"
    and "\<And>t k v. store_get t k s = Some v \<Longrightarrow> storable_key k \<and> storable_value C v"
    and "save_to_cold C ord nonce s = (ops, True)" and "fmdom (data_entries d) |\<subseteq>| fmdom s"
  shows "load_all_tables C ord' (run_ops ops d) = Loaded s"
proof (rule load_all_tables_exact)
  fix t
  have "storable_rows C (iter_map ord tbl)" if "fmlookup s t = Some tbl" for t tbl
    using assms(4) [of t] that by (auto simp: storable_rows_def mem_iter_map store_get_def)
  then have rows: "\<forall>(t, tbl) \<in> set (iter_map ord s). component t \<and> storable_rows C (iter_map ord tbl)"
    using assms(3) by (auto simp: mem_iter_map fmdomI)
  have "fmlookup (data_entries d) t = None" if "fmlookup s t = None"
    using that assms(6) by (metis fmdom_notD fmdom_notI fsubsetD)
  then show "case fmlookup s t of
      Some tbl \<Rightarrow> \<exists>dir. fmlookup (run_ops ops d) (InCwd [''data'', t]) = Some dir \<and> load_table C dir = Loaded tbl
    | None \<Rightarrow> fmlookup (run_ops ops d) (InCwd [''data'', t]) = None"
    using save_tables_load [OF assms(1,2) distinct_iter_map rows assms(5) [unfolded save_to_cold_def], where t = t and d = d]
    by (simp add: map_of_iter_map split: option.splits)
qed

lemma sample_rows:
  "store_get t k (store sample_node) = Some v \<Longrightarrow>
   k = ''k'' \<and> v = vv_new 5 (fmupd ''f'' ''x'' fmempty) ''alice'' ''n1''"
  by (auto simp: store_get_def sample_node_def split: if_splits option.splits)

lemma sample_storable:
  "storable_key ''k''" "storable_value (sample_codec v) v"
  by (simp_all add: storable_key_def storable_value_def sample_codec_def newline_def byte_in_def
      trim_def trim_start_def trim_end_def ws1_def)

theorem saved_store_loads_witness:
  "let v = vv_new 5 (fmupd ''f'' ''x'' fmempty) ''alice'' ''n1'';
       save = save_to_cold (sample_codec v) sorted_order (\<lambda>_ _. ''000000000000'') (store sample_node)
   in load_all_tables (sample_codec v) reversed_order (run_ops (fst save) fmempty) = Loaded (store sample_node)"
proof -
  define v where "v = vv_new 5 (fmupd ''f'' ''x'' fmempty) ''alice'' ''n1''"
  define s where "s = store sample_node"
  have rows: "storable_key k \<and> storable_value (sample_codec v) w" if "store_get t k s = Some w" for t k w
    using sample_rows [OF that [unfolded s_def]] sample_storable unfolding v_def by simp
  have plain: "component t" if "t |\<in>| fmdom s" for t
    using that by (simp add: s_def sample_node_def component_def)
  have none: "fmdom (data_entries fmempty) |\<subseteq>| fmdom s"
    by (simp add: data_entries_def sorted_list_of_fmap_def List.map_filter_def)
  have json: "json_of (sample_codec v) w \<noteq> None" if "store_get t k s = Some w" for t k w
    using rows [OF that] storable_json [of "sample_codec v" w] by auto
  have "snd (save_to_cold (sample_codec v) sorted_order (\<lambda>_ _. ''000000000000'') s)"
    by (rule save_completes [OF _ json]) (simp_all add: sample_codec_def)
  then have save: "save_to_cold (sample_codec v) sorted_order (\<lambda>_ _. ''000000000000'') s =
      (fst (save_to_cold (sample_codec v) sorted_order (\<lambda>_ _. ''000000000000'') s), True)"
    by (metis prod.collapse)
  show ?thesis
    unfolding Let_def v_def [symmetric] s_def [symmetric]
    by (rule saved_store_loads [OF sample_codec_sound _ plain rows save]) (simp_all add: none)
qed

text \<open>
  A save is not atomic. The table's file is truncated before it is written again, so a crash
  (or an I/O error) right after the first two file operations of a table's save leaves
  a disk from which the table loads empty, however many records it held before; only records
  of a write-ahead log would survive, and no code writes one.
\<close>

theorem interrupted_save_loses_table:
  assumes "save_table C ord nonce t tbl = (ops, ok)"
    and "fmlookup d (table_folder t) = Some \<lparr>storage_db = x, wal_log = Some ''''\<rparr>"
  shows "\<exists>rest. ops = [CreateDir (table_path t), CreateStorage (table_path t)] @ rest \<and>
    (\<exists>dir. fmlookup (run_ops [CreateDir (table_path t), CreateStorage (table_path t)] d) (table_folder t) = Some dir \<and>
      load_table C dir = Loaded fmempty)"
proof -
  have "\<exists>rest. ops = [CreateDir (table_path t), CreateStorage (table_path t)] @ rest"
    using assms(1) by (auto simp: save_table_def table_path_def Let_def split: prod.splits)
  with assms(2) create_dir_keeps [OF assms(2)] show ?thesis
    by (auto simp: load_table_def lines.simps table_folder_def)
qed

theorem interrupted_save_loses_table_witness:
  "\<exists>dir. fmlookup (run_ops [CreateDir (table_path ''t''), CreateStorage (table_path ''t'')]
      (fmupd (table_folder ''t'') \<lparr>storage_db = Some ''old'', wal_log = Some ''''\<rparr> fmempty)) (table_folder ''t'') = Some dir \<and>
    load_table (sample_codec (vv_new 5 fmempty ''alice'' ''n1'')) dir = Loaded fmempty"
proof -
  have "fmlookup (fmupd (table_folder ''t'') \<lparr>storage_db = Some ''old'', wal_log = Some ''''\<rparr> fmempty) (table_folder ''t'') =
      Some \<lparr>storage_db = Some ''old'', wal_log = Some ''''\<rparr>"
    by simp
  from interrupted_save_loses_table [OF prod.collapse [symmetric] this, of "sample_codec (vv_new 5 fmempty ''alice'' ''n1'')" sorted_order "\<lambda>_. ''''" fmempty]
  show ?thesis
    by blast
qed

text \<open>
  Some keys do not survive. A record whose key holds an equals sign is written as any other,
  but reading its line cuts the key at the first equals sign: what the rest of the line parses
  to is stored under the wrong key or, as for every JSON object text, not at all; and a key
  with blanks around it comes back without them.
\<close>

theorem unstorable_keys_change:
  assumes "CHR ''='' \<notin> set a" and "storable_value C v"
  shows "load_line C (row_line C (a @ ''='' @ b, v)) tbl =
      (case of_json C (trim (b @ '' = '' @ the (json_of C v))) of
         Some w \<Rightarrow> fmupd (trim a) w tbl | None \<Rightarrow> tbl) \<and>
    load_line C (row_line C (a, v)) tbl = fmupd (trim (a @ '' '')) v tbl"
proof -
  obtain j where j: "json_of C v = Some j" "of_json C j = Some v" "trim j = j"
    using storable_json [OF assms(2)] by metis
  have "split_once (CHR ''='') (a @ CHR ''='' # b @ '' = '' @ j) = Some (a, b @ '' = '' @ j)"
    by (rule split_once_append [OF assms(1)])
  moreover have "split_once (CHR ''='') ((a @ '' '') @ CHR ''='' # CHR '' '' # j) = Some (a @ '' '', CHR '' '' # j)"
    using assms(1) by (intro split_once_append) simp
  ultimately show ?thesis
    using j by (simp add: load_line_def row_line_def trim_space)
qed

theorem unstorable_keys_change_witness:
  "let v = vv_new 5 fmempty ''alice'' ''n1''; C = sample_codec v
   in load_line C (row_line C (''a=b'', v)) fmempty = fmempty \<and>
      load_line C (row_line C ('' a'', v)) fmempty = fmupd ''a'' v fmempty"
proof -
  define v :: "string versioned_value" where "v = vv_new 5 fmempty ''alice'' ''n1''"
  have json: "json_of (sample_codec v) v = Some ''{}''"
    by (simp add: sample_codec_def)
  have "trim (''b'' @ '' = '' @ ''{}'') = ''b = {}''"
    by code_simp
  then have none: "of_json (sample_codec v) (trim (''b'' @ '' = '' @ the (json_of (sample_codec v) v))) = None"
    unfolding json by (simp add: sample_codec_def)
  have "trim ('' a'' @ '' '') = ''a''"
    by code_simp
  with none unstorable_keys_change [OF _ sample_storable(2), of "''a''" v "''b''" fmempty]
    unstorable_keys_change [OF _ sample_storable(2), of "'' a''" v "''b''" fmempty]
  show ?thesis
    unfolding Let_def v_def [symmetric] by simp
qed

end
