(* ===== verification/Startup.thy ===== *)
theory Startup
  imports Persistence Convergence
begin

text \<open>
  The start of a process, \<^verbatim>\<open>main.rs\<close>: checking arguments and environment, loading cold storage,
  joining a cluster through one of its nodes, and merging that node's store into the local one.
\<close>

section \<open>Merging stores\<close>

fun merge_table_state :: "(string \<times> 'v versioned_value) list \<Rightarrow> 'v table \<Rightarrow> 'v table" where
  "merge_table_state [] local = local"
| "merge_table_state ((key, remote_val) # remote) local =
     merge_table_state remote
       (case fmlookup local key of
          Some local_val \<Rightarrow>
            if dominates remote_val local_val \<or>
               \<not> dominates local_val remote_val \<and> timestamp remote_val > timestamp local_val
            then fmupd key remote_val local else local
        | None \<Rightarrow> fmupd key remote_val local)"

fun merge_global_store ::
    "hash_order \<Rightarrow> (string \<times> 'v table) list \<Rightarrow> 'v kv_store \<Rightarrow> 'v kv_store" where
  "merge_global_store ord [] local = local"
| "merge_global_store ord ((table, remote_table) # remote) local =
     merge_global_store ord remote
       (fmupd table (merge_table_state (iter_map ord remote_table) (lookup_or fmempty local table)) local)"

section \<open>Starting a node\<close>

text \<open>
  What the node it joins through answers: a status, and the body if it parses; or nothing.
\<close>

type_synonym 'a reply = "(nat \<times> 'a option) option"

definition is_success :: "nat \<Rightarrow> bool" where
  "is_success c \<longleftrightarrow> 200 \<le> c \<and> c < 300"

definition adopt_nodes :: "hash_order \<Rightarrow> membership reply \<Rightarrow> membership \<Rightarrow> membership" where
  "adopt_nodes ord reply ns =
     (case reply of
        Some (c, Some joined) \<Rightarrow> if is_success c then insert_all (iter_map ord joined) ns else ns
      | _ \<Rightarrow> ns)"

definition adopt_store :: "hash_order \<Rightarrow> 'v kv_store reply \<Rightarrow> 'v kv_store \<Rightarrow> 'v kv_store" where
  "adopt_store ord reply s =
     (case reply of
        Some (c, remote) \<Rightarrow>
          if is_success c
          then merge_global_store ord (iter_map ord (case remote of Some r \<Rightarrow> r | None \<Rightarrow> fmempty)) s
          else s
      | None \<Rightarrow> s)"

definition initial_nodes :: "('v, 'c) env \<Rightarrow> membership" where
  "initial_nodes E = fmupd (current_addr E) \<lparr>status = Active, last_heartbeat = now E\<rparr> fmempty"

datatype ('v, 'c) startup = Exit nat | Serving "('v, 'c) node"

text \<open>
  \<^verbatim>\<open>main\<close> from the check of the arguments up to the point where the server runs. The arguments include the program name;
  \<open>jwt_var\<close> is \<^verbatim>\<open>env::var("JWT_SECRET")\<close>, and the requests to the joined node are
  \<open>join_secret\<close> and \<open>store_api_key\<close> below.
\<close>

definition start_node ::
    "('v, 'c) env \<Rightarrow> string list \<Rightarrow> string option \<Rightarrow> 'v kv_store load \<Rightarrow> membership reply \<Rightarrow>
     'v kv_store reply \<Rightarrow> ('v, 'c) startup" where
  "start_node E args jwt_var cold join_reply store_reply =
     (if length args < 2 then Exit 1
      else if jwt_var = None then Exit 1
      else case cold of
        ProcessExit \<Rightarrow> Exit 1
      | _ \<Rightarrow>
          (let loaded = (case cold of Loaded s \<Rightarrow> s | _ \<Rightarrow> fmempty);
               s = touch_table ''default'' loaded;
               ns = initial_nodes E
           in if length args \<ge> 3
              then Serving \<lparr>store = adopt_store (iter_order E) store_reply s,
                            nodes = adopt_nodes (iter_order E) join_reply ns, channels = sub_manager_new\<rparr>
              else Serving \<lparr>store = s, nodes = ns, channels = sub_manager_new\<rparr>))"

definition join_secret :: "('v, 'c) env \<Rightarrow> string" where
  "join_secret E = cluster_secret_or_empty E"

definition store_request :: "('v, 'c) env \<Rightarrow> http_request" where
  "store_request E = fmupd ''x-api-key'' (header_of (cluster_secret_or_empty E)) fmempty"

definition use_https :: "('v, 'c) env \<Rightarrow> bool" where
  "use_https E \<longleftrightarrow> (case var_dyna_mode E of Some m \<Rightarrow> m | None \<Rightarrow> '''') = ''https''"

text \<open>What the client makes of the two answers.\<close>

definition nodes_reply :: "'v response \<Rightarrow> membership reply" where
  "nodes_reply r = Some (code r, case body r of NodesJson ns \<Rightarrow> Some ns | _ \<Rightarrow> None)"

definition store_reply_of :: "'v response \<Rightarrow> 'v kv_store reply" where
  "store_reply_of r = Some (code r, case body r of StoreJson s \<Rightarrow> Some s | _ \<Rightarrow> None)"

section \<open>Lemmas\<close>

lemma merge_table_lookup:
  assumes "distinct (map fst remote)"
  shows "fmlookup (merge_table_state remote tbl) k =
    (case map_of remote k of None \<Rightarrow> fmlookup tbl k | Some v \<Rightarrow> merge_cell (fmlookup tbl k) v)"
  using assms
proof (induction remote arbitrary: tbl)
  case (Cons x remote)
  obtain key v where x: "x = (key, v)"
    by fastforce
  let ?t = "case fmlookup tbl key of
      Some old \<Rightarrow> if dominates v old \<or> \<not> dominates old v \<and> timestamp v > timestamp old
                  then fmupd key v tbl else tbl
    | None \<Rightarrow> fmupd key v tbl"
  have t: "fmlookup ?t m = (if m = key then merge_cell (fmlookup tbl key) v else fmlookup tbl m)" for m
    by (auto simp: merge_cell_def merge_version_def supersedes_def split: option.splits)
  have "map_of remote key = None"
    using Cons.prems x by (simp add: map_of_eq_None_iff)
  moreover have "fmlookup (merge_table_state remote ?t) k =
      (case map_of remote k of None \<Rightarrow> fmlookup ?t k | Some w \<Rightarrow> merge_cell (fmlookup ?t k) w)"
    using Cons by simp
  ultimately show ?case
    unfolding x merge_table_state.simps t by (auto split: option.splits)
qed simp

lemma merge_global_lookup:
  assumes "distinct (map fst remote)"
  shows "store_get t k (merge_global_store ord remote s) =
    (case Option.bind (map_of remote t) (\<lambda>tbl. fmlookup tbl k) of
       None \<Rightarrow> store_get t k s | Some v \<Rightarrow> merge_cell (store_get t k s) v)"
  using assms
proof (induction remote arbitrary: s)
  case (Cons x remote)
  obtain t0 tbl where x: "x = (t0, tbl)"
    by fastforce
  let ?s = "fmupd t0 (merge_table_state (iter_map ord tbl) (lookup_or fmempty s t0)) s"
  have s: "store_get t k ?s = (if t = t0 then (case fmlookup tbl k of None \<Rightarrow> store_get t k s
      | Some v \<Rightarrow> merge_cell (store_get t k s) v) else store_get t k s)"
    by (auto simp: store_get_def lookup_or_def merge_table_lookup distinct_iter_map map_of_iter_map
        split: option.splits)
  have "map_of remote t0 = None"
    using Cons.prems x by (simp add: map_of_eq_None_iff)
  with Cons s show ?case
    by (auto simp: x split: option.splits)
qed simp

lemma store_get_bind: "store_get t k s = Option.bind (fmlookup s t) (\<lambda>tbl. fmlookup tbl k)"
  by (simp add: store_get_def split: option.splits)

lemma merge_remote_store:
  "store_get t k (merge_global_store ord (iter_map ord' remote) s) =
    (case store_get t k remote of None \<Rightarrow> store_get t k s | Some v \<Rightarrow> merge_cell (store_get t k s) v)"
  unfolding store_get_bind [of t k remote]
  using merge_global_lookup [OF distinct_iter_map, of t k ord ord' remote s] by (simp add: map_of_iter_map)

section \<open>Properties of startup\<close>

text \<open>
  The merge at startup is the merge of replication. Pulling another node's store acts on
  every record as receiving it in an internal write would: records the other node does not have
  stay, the others become the merge of the local and the remote version; iteration order does not
  matter.
\<close>

theorem pull_equals_replication:
  "store_get t k (merge_global_store ord (iter_map ord' remote) s) =
     (case store_get t k remote of
        None \<Rightarrow> store_get t k s
      | Some v \<Rightarrow> store_get t k (store (deliver_put E (cluster_secret E) t k v (nd\<lparr>store := s\<rparr>))))"
  by (simp add: merge_remote_store store_get_deliver split: option.splits)

text \<open>
  C18: a joining node catches up. With the same \<^verbatim>\<open>CLUSTER_SECRET\<close> set on both sides, the node that
  is asked admits the newcomer, and the newcomer starts with the admitting node's membership
  table, in which both are listed, and with the merge of its cold storage and the other node's
  store; if the secret is not header text, the store is not served and the newcomer has
  its cold storage only.
\<close>

theorem joining_node_catches_up:
  assumes "var_cluster_secret E = Some secret" and "var_cluster_secret E' = Some secret"
    and "length args \<ge> 3" and "jwt_var \<noteq> None" and "cold \<noteq> ProcessExit"
    and "current_addr E' |\<in>| fmdom (nodes peer)"
    and "join_cluster E' permit (current_addr E) (join_secret E) peer = (r, peer', gossip)"
    and "start_node E args jwt_var cold (nodes_reply r) (store_reply_of (get_global_store E' (store_request E) peer')) =
         Serving nd"
  shows "nodes nd = nodes peer' \<and> current_addr E |\<in>| fmdom (nodes peer') \<and> current_addr E' |\<in>| fmdom (nodes peer') \<and>
    (\<forall>t k. store_get t k (store nd) =
       (let mine = (case cold of Loaded s \<Rightarrow> store_get t k s | _ \<Rightarrow> None);
            theirs = (if header_text secret then store_get t k (store peer) else None)
        in case theirs of None \<Rightarrow> mine | Some v \<Rightarrow> merge_cell mine v))"
proof -
  have secrets: "join_secret E = cluster_secret E'" "cluster_secret_or_empty E = cluster_secret E'"
    using assms(1,2) by (simp_all add: join_secret_def cluster_secret_or_empty_def cluster_secret_def)
  from assms(7) secrets have r: "r = respond 200 (NodesJson (nodes peer'))" and st: "store peer' = store peer"
    and mem: "current_addr E |\<in>| fmdom (nodes peer')" "current_addr E' |\<in>| fmdom (nodes peer')"
    using assms(6) by (auto simp: join_cluster_def Let_def fmdomI split: if_splits)
  have g: "get_global_store E' (store_request E) peer' =
      (if header_text secret then respond 200 (StoreJson (store peer))
       else respond 400 (Text ''Malformed API key header''))"
    using assms(1) secrets st by (simp add: get_global_store_def store_request_def header_of_def cluster_secret_or_empty_def)
  have "initial_nodes E ++\<^sub>f nodes peer' = nodes peer'"
    using mem(1) by (intro fmap_ext) (auto simp: initial_nodes_def dest: fmdom_notD)
  then have nodes: "nodes nd = nodes peer'"
    and store: "store nd = (if header_text secret
      then merge_global_store (iter_order E) (iter_map (iter_order E) (store peer))
        (touch_table ''default'' (case cold of Loaded s \<Rightarrow> s | _ \<Rightarrow> fmempty))
      else touch_table ''default'' (case cold of Loaded s \<Rightarrow> s | _ \<Rightarrow> fmempty))"
    using assms(3-5,8) r g
    by (auto simp: start_node_def nodes_reply_def store_reply_of_def adopt_nodes_def adopt_store_def
        is_success_def Let_def split: load.splits)
  have "store_get t k (touch_table ''default'' (case cold of Loaded s \<Rightarrow> s | _ \<Rightarrow> fmempty)) =
      (case cold of Loaded s \<Rightarrow> store_get t k s | _ \<Rightarrow> None)" for t k
    by (cases cold) (simp_all add: store_simps, simp_all add: store_get_def)
  with nodes mem store show ?thesis
    by (auto simp: merge_remote_store Let_def split: option.splits)
qed

theorem joining_node_catches_up_witness:
  "\<exists>nd. start_node (sample_env ''n9'' 50) [''prog'', ''n9'', ''n1''] (Some ''123'') (Loaded fmempty)
     (nodes_reply (fst (join_cluster (sample_env ''n1'' 9) True ''n9'' ''cs'' sample_node)))
     (store_reply_of (get_global_store (sample_env ''n1'' 9) (store_request (sample_env ''n9'' 50))
        (fst (snd (join_cluster (sample_env ''n1'' 9) True ''n9'' ''cs'' sample_node))))) = Serving nd \<and>
     store_get ''t'' ''k'' (store nd) = store_get ''t'' ''k'' (store sample_node)"
proof -
  let ?E = "sample_env ''n9'' 50" and ?E' = "sample_env ''n1'' 9"
  let ?join = "join_cluster ?E' True ''n9'' ''cs'' sample_node"
  obtain nd where nd: "start_node ?E [''prog'', ''n9'', ''n1''] (Some ''123'') (Loaded fmempty)
     (nodes_reply (fst ?join)) (store_reply_of (get_global_store ?E' (store_request ?E) (fst (snd ?join)))) = Serving nd"
    by (simp add: start_node_def Let_def)
  have env: "var_cluster_secret ?E = Some ''cs''" "var_cluster_secret ?E' = Some ''cs''"
    "current_addr ?E = ''n9''" "join_secret ?E = ''cs''" "current_addr ?E' = ''n1''"
    by (simp_all add: sample_env_def join_secret_def cluster_secret_or_empty_def)
  have peer: "current_addr ?E' |\<in>| fmdom (nodes sample_node)"
    unfolding env by (simp add: sample_node_def)
  have join: "join_cluster ?E' True (current_addr ?E) (join_secret ?E) sample_node =
      (fst ?join, fst (snd ?join), snd (snd ?join))"
    unfolding env by (rule triple_collapse)
  have "store_get ''t'' ''k'' (store nd) =
      (case (if header_text ''cs'' then store_get ''t'' ''k'' (store sample_node) else None) of None \<Rightarrow> store_get ''t'' ''k'' fmempty
       | Some v \<Rightarrow> merge_cell (store_get ''t'' ''k'' fmempty) v)"
    using joining_node_catches_up [OF env(1,2) _ _ _ peer join nd] by (simp add: Let_def)
  then show ?thesis
    using nd by (auto simp: header_text_def store_get_def merge_cell_def split: option.splits)
qed

text \<open>
  Joining fails on the default secret. If \<^verbatim>\<open>CLUSTER_SECRET\<close> is not set on either side, the
  newcomer presents the empty string where the other node expects \<^verbatim>\<open>default_secret\<close>: the join is
  refused, the pull of the store too, and the newcomer starts alone with its cold storage.
\<close>

theorem join_refused_on_default_secret:
  assumes "var_cluster_secret E = None" and "var_cluster_secret E' = None"
    and "length args \<ge> 3" and "jwt_var \<noteq> None"
    and "join_cluster E' permit (current_addr E) (join_secret E) peer = (r, peer', gossip)"
  shows "code r = 401 \<and> peer' = peer \<and>
    start_node E args jwt_var (Loaded s) (nodes_reply r) (store_reply_of (get_global_store E' (store_request E) peer)) =
      Serving \<lparr>store = touch_table ''default'' s, nodes = initial_nodes E, channels = sub_manager_new\<rparr>"
proof -
  have "cluster_secret_or_empty E \<noteq> cluster_secret E'"
    using assms(1,2) by (simp add: cluster_secret_or_empty_def cluster_secret_def)
  with assms(3-5) show ?thesis
    by (auto simp: join_cluster_def join_secret_def get_global_store_def store_request_def start_node_def
        nodes_reply_def store_reply_of_def adopt_nodes_def adopt_store_def is_success_def header_of_def Let_def)
qed

theorem join_refused_on_default_secret_witness:
  "code (fst (join_cluster ((sample_env ''n1'' 9)\<lparr>var_cluster_secret := None\<rparr>) True ''n9''
     (join_secret ((sample_env ''n9'' 50)\<lparr>var_cluster_secret := None\<rparr>)) sample_node)) = 401"
proof -
  let ?E = "(sample_env ''n9'' 50)\<lparr>var_cluster_secret := None\<rparr>"
  let ?E' = "(sample_env ''n1'' 9)\<lparr>var_cluster_secret := None\<rparr>"
  have env: "current_addr ?E = ''n9''"
    by (simp add: sample_env_def)
  from join_refused_on_default_secret [where E = ?E and E' = ?E' and args = "[''p'', ''n9'', ''n1'']"
      and jwt_var = "Some ''x''", OF _ _ _ _ triple_collapse, where permit = True and peer = sample_node]
  show ?thesis
    unfolding env by simp
qed

end
