(* ===== verification/Statistics.thy ===== *)
theory Statistics
  imports Engine
begin

text \<open>
  Metrics, \<^verbatim>\<open>storage/statistics.rs\<close>: the request counters, the middleware that feeds them, and
  the handler \<^verbatim>\<open>get_stats\<close>. The floating-point average is a parameter of the handler.
\<close>

section \<open>Counters\<close>

record metrics =
  total_requests :: u64
  total_latency_ns :: u64

definition metrics_new :: metrics where
  "metrics_new = \<lparr>total_requests = 0, total_latency_ns = 0\<rparr>"

text \<open>Atomic additions wrap around.\<close>

definition metrics_record :: "u64 \<Rightarrow> metrics \<Rightarrow> metrics" where
  "metrics_record latency_ns m =
     m\<lparr>total_requests := total_requests m + 1, total_latency_ns := total_latency_ns m + latency_ns\<rparr>"

text \<open>
  The middleware: an inner service that fails is passed on uncounted; otherwise the elapsed
  nanoseconds, cut to 64 bits, are recorded.
\<close>

definition middleware_call :: "'e + 'r \<Rightarrow> u128 \<Rightarrow> metrics \<Rightarrow> ('e + 'r) \<times> metrics" where
  "middleware_call result elapsed_ns m =
     (case result of
        Inl e \<Rightarrow> (Inl e, m)
      | Inr res \<Rightarrow> (Inr res, metrics_record (ucast elapsed_ns) m))"

section \<open>The handler\<close>

record cluster_stats =
  stat_status :: string
  stat_heartbeat :: u128

record 'f stats_response =
  stat_tables :: "(string, nat) fmap"
  total_keys :: nat
  stat_requests :: u64
  average_latency_ms :: 'f
  active_sse_connections :: nat
  cluster_members :: "(string, cluster_stats) fmap"

definition status_str :: "node_status \<Rightarrow> string" where
  "status_str s =
     (case s of Active \<Rightarrow> ''Active'' | Suspect \<Rightarrow> ''Suspect'' | Down \<Rightarrow> ''Down'' | Leaving \<Rightarrow> ''Leaving'')"

fun count_tables :: "(string \<times> 'v table) list \<Rightarrow> (string, nat) fmap \<Rightarrow> nat \<Rightarrow> (string, nat) fmap \<times> nat" where
  "count_tables [] tables total_count = (tables, total_count)"
| "count_tables ((table, m) # rest) tables total_count =
     count_tables rest (fmupd table (fcard (fmdom m)) tables) (total_count + fcard (fmdom m))"

definition get_stats ::
    "('v, 'c) env \<Rightarrow> (u64 \<Rightarrow> u64 \<Rightarrow> 'f) \<Rightarrow> 'f \<Rightarrow> metrics \<Rightarrow> ('v, 'c) node \<Rightarrow> 'f stats_response" where
  "get_stats E average zero m nd =
     (let (tables, total_count) = count_tables (iter_map (iter_order E) (store nd)) fmempty 0
      in \<lparr>stat_tables = tables, total_keys = total_count, stat_requests = total_requests m,
          average_latency_ms =
            (if total_requests m > 0 then average (total_latency_ns m) (total_requests m) else zero),
          active_sse_connections =
            sum_list (map (\<lambda>(i, tx). bc_receiver_count (bc E) tx) (iter_map (iter_order E) (channels nd))),
          cluster_members =
            fmap_of_list (map (\<lambda>(addr, info). (addr, \<lparr>stat_status = status_str (status info),
                stat_heartbeat = last_heartbeat info\<rparr>)) (iter_map (iter_order E) (nodes nd)))\<rparr>)"

section \<open>Lemmas\<close>

lemma count_tables_total:
  "snd (count_tables xs tables total_count) = total_count + sum_list (map (\<lambda>(t, m). fcard (fmdom m)) xs)"
  by (induction xs tables total_count rule: count_tables.induct) auto

lemma count_tables_lookup:
  "distinct (map fst xs) \<Longrightarrow>
   fmlookup (fst (count_tables xs tables total_count)) t =
     (case map_of xs t of None \<Rightarrow> fmlookup tables t | Some m \<Rightarrow> Some (fcard (fmdom m)))"
proof (induction xs tables total_count rule: count_tables.induct)
  case (2 table m rest tables total_count)
  then have "map_of rest table = None"
    by (simp add: map_of_eq_None_iff)
  with 2 show ?case
    by (auto split: option.splits)
qed simp

text \<open>The keys of a store, as pairs of a table and a key.\<close>

definition stored_keys :: "'v kv_store \<Rightarrow> (string \<times> string) set" where
  "stored_keys s = {(t, k). store_get t k s \<noteq> None}"

lemma card_stored_keys:
  "card (stored_keys s) = sum_list (map (\<lambda>(t, m). fcard (fmdom m)) (iter_map ord s))"
proof -
  have "stored_keys s = (\<Union>(t, m) \<in> set (iter_map ord s). {t} \<times> fset (fmdom m))"
    by (force simp: stored_keys_def store_get_def mem_iter_map fmlookup_dom_iff split: option.splits)
  moreover have "card (\<Union>(t, m) \<in> set xs. {t} \<times> fset (fmdom m)) = sum_list (map (\<lambda>(t, m). fcard (fmdom m)) xs)"
    if "distinct (map fst xs)" for xs :: "(string \<times> 'a table) list"
    using that
  proof (induction xs)
    case (Cons x xs)
    obtain t m where x: "x = (t, m)"
      by fastforce
    let ?rest = "\<Union>(t, m) \<in> set xs. {t} \<times> fset (fmdom m)"
    have "({t} \<times> fset (fmdom m)) \<inter> ?rest = {}"
      using Cons.prems x by force
    moreover have "finite ?rest"
      by auto
    ultimately have "card (({t} \<times> fset (fmdom m)) \<union> ?rest) = card ({t} \<times> fset (fmdom m)) + card ?rest"
      by (intro card_Un_disjoint) auto
    with Cons x show ?case
      by (simp add: card_cartesian_product fcard.rep_eq)
  qed simp
  ultimately show ?thesis
    by (simp add: distinct_iter_map)
qed

section \<open>Properties of statistics\<close>

text \<open>
  The key counts are right. The reported size of each table is the number of its keys, and the
  reported total is the number of records of the store, in any iteration order.
\<close>

theorem stats_count_keys:
  "fmlookup (stat_tables (get_stats E average zero m nd)) t =
     map_option (\<lambda>tbl. fcard (fmdom tbl)) (fmlookup (store nd) t) \<and>
   total_keys (get_stats E average zero m nd) = card (stored_keys (store nd))"
proof -
  let ?xs = "iter_map (iter_order E) (store nd)"
  have look: "map_of ?xs t = fmlookup (store nd) t"
    by (metis fmap_of_iter_map fmlookup_of_list)
  have "stat_tables (get_stats E average zero m nd) = fst (count_tables ?xs fmempty 0)"
    and "total_keys (get_stats E average zero m nd) = snd (count_tables ?xs fmempty 0)"
    by (simp_all add: get_stats_def case_prod_beta Let_def)
  then show ?thesis
    by (simp add: count_tables_lookup distinct_iter_map look count_tables_total
        card_stored_keys [of "store nd" "iter_order E"] split: option.splits)
qed

fun serve_all :: "('e + 'r) list \<Rightarrow> (nat \<Rightarrow> u128) \<Rightarrow> nat \<Rightarrow> metrics \<Rightarrow> metrics" where
  "serve_all [] elapsed i m = m"
| "serve_all (r # rs) elapsed i m = serve_all rs elapsed (Suc i) (snd (middleware_call r (elapsed i) m))"

lemma serve_all_counts:
  "total_requests (serve_all rs elapsed i m) = total_requests m + of_nat (length (filter (Not \<circ> isl) rs))"
  by (induction rs arbitrary: i m)
    (auto simp: middleware_call_def metrics_record_def algebra_simps split: sum.splits)

lemma serve_all_latency:
  "total_latency_ns (serve_all rs elapsed i m) =
     total_latency_ns m + (\<Sum>j \<leftarrow> filter (\<lambda>j. \<not> isl (rs ! j)) [0..<length rs]. ucast (elapsed (i + j)))"
proof (induction rs arbitrary: i m)
  case (Cons r rs)
  have shift: "[0..<length (r # rs)] = 0 # map Suc [0..<length rs]"
    by (simp add: upt_conv_Cons map_Suc_upt del: upt_Suc)
  have "filter (\<lambda>j. \<not> isl ((r # rs) ! j)) (map Suc [0..<length rs]) =
      map Suc (filter (\<lambda>j. \<not> isl (rs ! j)) [0..<length rs])"
    by (simp add: filter_map comp_def)
  with Cons shift show ?case
    by (cases r) (simp_all add: middleware_call_def metrics_record_def comp_def algebra_simps)
qed simp

text \<open>
  The counters count answered requests. After any sequence of requests, the request counter
  is the number of those whose service returned a response, and the latency counter the sum
  of their latencies, both modulo \<open>2 ^ 64\<close>; failed ones leave no trace.
\<close>

theorem metrics_count_responses:
  "let m = serve_all rs elapsed 0 metrics_new
   in total_requests m = of_nat (length (filter (Not \<circ> isl) rs)) \<and>
      total_latency_ns m = (\<Sum>j \<leftarrow> filter (\<lambda>j. \<not> isl (rs ! j)) [0..<length rs]. ucast (elapsed j))"
  by (simp add: serve_all_counts serve_all_latency metrics_new_def)

end
