(* ===== verification/Delivery.thy ===== *)
theory Delivery
  imports Convergence
begin

text \<open>
  The background tasks that carry a write to other nodes: the retry loop of the replication tasks in
  \<^verbatim>\<open>engine.rs\<close>, the semaphore of \<^verbatim>\<open>main.rs\<close> that bounds how many of them run, and why delivering
  a message more than once does no harm.
\<close>

section \<open>The retry loop\<close>

text \<open>
  Each attempt either comes back with a success status or does not (an error status, or no
  answer at all). The result is whether an attempt succeeded, how many were made, and the pauses in
  milliseconds between them.
\<close>

fun retry_loop :: "(nat \<Rightarrow> bool) \<Rightarrow> nat \<Rightarrow> nat \<Rightarrow> nat \<Rightarrow> bool \<times> nat \<times> nat list" where
  "retry_loop ok attempt 0 backoff = (False, attempt, [])"
| "retry_loop ok attempt (Suc retries) backoff =
     (if ok attempt then (True, Suc attempt, [])
      else if retries > 0 then
        (let (sent, attempts, pauses) = retry_loop ok (Suc attempt) retries (backoff * 2)
         in (sent, attempts, backoff # pauses))
      else (False, Suc attempt, []))"

definition replication_task :: "(nat \<Rightarrow> bool) \<Rightarrow> bool \<times> nat \<times> nat list" where
  "replication_task ok = retry_loop ok 0 3 100"

text \<open>What the receiving node does with a replicated version that reaches it several times.\<close>

definition deliver_times ::
    "nat \<Rightarrow> ('v, 'c) env \<Rightarrow> string \<Rightarrow> string \<Rightarrow> string \<Rightarrow> 'v versioned_value \<Rightarrow> ('v, 'c) node \<Rightarrow> ('v, 'c) node" where
  "deliver_times n E secret t k v nd = ((deliver_put E secret t k v) ^^ n) nd"

definition delete_times ::
    "nat \<Rightarrow> ('v, 'c) env \<Rightarrow> string \<Rightarrow> string \<Rightarrow> string \<Rightarrow> ('v, 'c) node \<Rightarrow> ('v, 'c) node" where
  "delete_times n E secret t k nd =
     ((\<lambda>x. fst (snd (delete_value E (internal_header secret) (t, k) x))) ^^ n) nd"

section \<open>The semaphore\<close>

text \<open>
  The permits of the process and the tasks that hold one. A replication task waits for a permit
  (\<^verbatim>\<open>acquire_owned\<close>), the gossip after a join only starts if one is free
  (\<^verbatim>\<open>try_acquire_owned\<close>), and a task gives its permit back when it ends.
\<close>

datatype task = Replicate nat | JoinGossip

record permits =
  available :: nat
  running :: "task list"
  waiting :: "nat list"

abbreviation max_permits :: nat where
  "max_permits \<equiv> 20"

definition semaphore_new :: permits where
  "semaphore_new = \<lparr>available = max_permits, running = [], waiting = []\<rparr>"

inductive permit_step :: "permits \<Rightarrow> permits \<Rightarrow> bool" where
  request: "permit_step s (s\<lparr>waiting := waiting s @ [i]\<rparr>)"
| acquire: "available s = Suc n \<Longrightarrow> waiting s = i # rest \<Longrightarrow>
    permit_step s (s\<lparr>available := n, running := Replicate i # running s, waiting := rest\<rparr>)"
| try_acquire: "available s = Suc n \<Longrightarrow>
    permit_step s (s\<lparr>available := n, running := JoinGossip # running s\<rparr>)"
| try_acquire_fails: "available s = 0 \<Longrightarrow> permit_step s s"
| finish: "j \<in> set (running s) \<Longrightarrow>
    permit_step s (s\<lparr>available := Suc (available s), running := remove1 j (running s)\<rparr>)"

inductive_cases permit_step_elims: "permit_step s s'"

definition permits_ok :: "permits \<Rightarrow> bool" where
  "permits_ok s \<longleftrightarrow> available s + length (running s) = max_permits"

lemma permits_step_ok:
  assumes "permit_step s s'" and "permits_ok s"
  shows "permits_ok s'"
  using assms
  by (elim permit_step_elims)
    (auto simp: permits_ok_def length_remove1 in_set_conv_decomp dest: length_pos_if_in_set)

lemma permits_run_ok: "permit_step\<^sup>*\<^sup>* s s' \<Longrightarrow> permits_ok s \<Longrightarrow> permits_ok s'"
  by (induction rule: rtranclp_induct) (auto intro: permits_step_ok)

section \<open>Lemmas\<close>

lemma deliver_put_again:
  "store_get t' k' (store (deliver_put E secret t k v (deliver_put E secret t k v nd))) =
   store_get t' k' (store (deliver_put E secret t k v nd))"
  by (auto simp: store_get_deliver merge_cell_def merge_version_def supersedes_def split: option.splits)

section \<open>Properties of delivery\<close>

text \<open>
  C21: a replication task makes at most three attempts. It ends, it reports success exactly
  if one of its first three attempts succeeds, it stops at the first success, and it pauses
  100 and then 200 milliseconds between attempts.
\<close>

theorem replication_task_attempts:
  "replication_task ok =
     (if ok 0 then (True, 1, []) else if ok 1 then (True, 2, [100])
      else if ok 2 then (True, 3, [100, 200]) else (False, 3, [100, 200]))"
  by (simp add: replication_task_def numeral_3_eq_3 numeral_2_eq_2)

text \<open>
  Repeated delivery is harmless. An attempt whose answer is lost may have been processed, so
  a retried message can reach its target several times; processing an internal write or an
  internal delete any positive number of times leaves every record as processing it once does.
\<close>

theorem redelivery_harmless:
  "store_get t' k' (store (deliver_times (Suc n) E secret t k v nd)) =
     store_get t' k' (store (deliver_put E secret t k v nd)) \<and>
   store_get t' k' (store (delete_times (Suc n) E (cluster_secret E) t k nd)) =
     (if (t', k') = (t, k) then None else store_get t' k' (store nd))"
proof (intro conjI)
  show "store_get t' k' (store (deliver_times (Suc n) E secret t k v nd)) =
      store_get t' k' (store (deliver_put E secret t k v nd))"
  proof (induction n)
    case (Suc n)
    let ?x = "deliver_times (Suc n) E secret t k v nd"
    have "store_get t' k' (store (deliver_put E secret t k v ?x)) = store_get t' k' (store ?x)"
      using deliver_put_again [of t' k' E secret t k v] by (simp add: deliver_times_def)
    with Suc show ?case
      by (simp add: deliver_times_def)
  qed (simp add: deliver_times_def)
  show "store_get t' k' (store (delete_times (Suc n) E (cluster_secret E) t k nd)) =
      (if (t', k') = (t, k) then None else store_get t' k' (store nd))"
    by (induction n) (auto simp: delete_times_def delete_value_parts Let_def store_simps)
qed

text \<open>
  At most twenty tasks run. Whatever requests arrive and tasks end, the permits handed out and
  the free ones always add up to twenty, so no more than twenty replication and gossip tasks
  hold one at a time, and a free permit means fewer than twenty are running.
\<close>

theorem at_most_twenty_tasks:
  assumes "permit_step\<^sup>*\<^sup>* semaphore_new s"
  shows "available s + length (running s) = 20"
  using permits_run_ok [OF assms] by (simp add: permits_ok_def semaphore_new_def)

theorem at_most_twenty_tasks_witness:
  "length (running (semaphore_new\<lparr>available := 19, running := [JoinGossip]\<rparr>)) \<le> 20"
proof -
  have "permit_step semaphore_new (semaphore_new\<lparr>available := 19, running := JoinGossip # running semaphore_new\<rparr>)"
    by (rule permit_step.try_acquire) (simp add: semaphore_new_def)
  then have "permit_step semaphore_new (semaphore_new\<lparr>available := 19, running := [JoinGossip]\<rparr>)"
    by (simp add: semaphore_new_def)
  then have "permit_step\<^sup>*\<^sup>* semaphore_new (semaphore_new\<lparr>available := 19, running := [JoinGossip]\<rparr>)"
    by (rule r_into_rtranclp)
  from at_most_twenty_tasks [OF this] show ?thesis
    by simp
qed

end
