(* ===== verification/Server.thy ===== *)
theory Server
  imports Routes Reading Membership Admin Startup Statistics Delivery
begin

text \<open>
  The server as \<^verbatim>\<open>main.rs\<close> assembles it: a request passes the metrics middleware, is routed, its
  arguments are extracted, and the handler of the route runs. What actix-web, serde and bincode
  do (percent-decoding, extraction of bodies, rejections) is a parameter, the record \<open>web\<close>.
\<close>

section \<open>Requests and the framework\<close>

text \<open>The request bodies with named fields.\<close>

record join_request =
  join_node :: string
  join_given :: string

record keys_request =
  req_keys :: "string list"

record ping_request =
  ping_target :: string

record login_request =
  password :: string

text \<open>
  A request as it arrives: the path is that of the URI, the content the raw body.
\<close>

record raw_request =
  req_method :: http_method
  req_path :: string
  headers :: http_request
  content :: string

text \<open>
  The framework: \<open>router\<close> picks the route of a request from the registered ones and captures the
  segments of its placeholders, \<open>requote\<close> is the partial decoding before routing, \<open>unquote\<close> the decoding of a
  captured segment, the extractors read headers and body and fail with \<^const>\<open>None\<close>, and
  \<open>rejection\<close> is the response to a failed extraction.
\<close>

record ('v, 'f) web =
  router :: "route list \<Rightarrow> http_method \<Rightarrow> string \<Rightarrow> (endpoint \<times> string list) option"
  requote :: "string \<Rightarrow> string"
  unquote :: "string \<Rightarrow> string"
  json_fields :: "http_request \<Rightarrow> string \<Rightarrow> (string, 'v) fmap option"
  json_version :: "http_request \<Rightarrow> string \<Rightarrow> 'v versioned_value option"
  json_keys :: "http_request \<Rightarrow> string \<Rightarrow> keys_request option"
  json_join :: "http_request \<Rightarrow> string \<Rightarrow> join_request option"
  json_ping :: "http_request \<Rightarrow> string \<Rightarrow> ping_request option"
  json_login :: "http_request \<Rightarrow> string \<Rightarrow> login_request option"
  read_bytes :: "http_request \<Rightarrow> string \<Rightarrow> string option"
  bincode_membership :: "string \<Rightarrow> membership option"
  bincode_access :: "string \<Rightarrow> string option"
  json_access :: "string \<Rightarrow> string option"
  rejection :: "http_request \<Rightarrow> string \<Rightarrow> 'v response"
  event_json :: "'v key_event \<Rightarrow> string option"
  average :: "u64 \<Rightarrow> u64 \<Rightarrow> 'f"
  zero_average :: 'f

text \<open>What happens around a request: the answers of other nodes, a free permit, the elapsed time.\<close>

record 'v surroundings =
  fetched :: "string \<Rightarrow> 'v fetch"
  permit_free :: bool
  net :: network
  elapsed :: u128

text \<open>
  The reply: a response, the statistics report, the event stream (as a function of what its receiver
  will return), or the static page.
\<close>

datatype ('v, 'f) http_reply =
    Reply "'v response"
  | StatsReply "'f stats_response"
  | StreamReply nat "'v recv_result list \<Rightarrow> string list"
  | DashboardReply

text \<open>The background work a request leaves behind.\<close>

datatype 'v effect = Send "'v outgoing" | GossipLater

text \<open>The process: the shared state of the handlers and the counters.\<close>

record ('v, 'c) server =
  state :: "('v, 'c) node"
  collector :: metrics

section \<open>Dispatch\<close>

type_synonym ('v, 'c, 'f) outcome = "('v, 'f) http_reply \<times> ('v, 'c) node \<times> 'v effect list"

definition answer :: "'v response \<Rightarrow> ('v, 'c) node \<Rightarrow> ('v, 'c, 'f) outcome" where
  "answer r nd = (Reply r, nd, [])"

definition finish :: "'v response \<times> ('v, 'c) node \<times> 'v outgoing list \<Rightarrow> ('v, 'c, 'f) outcome" where
  "finish res = (let (r, nd, out) = res in (Reply r, nd, map Send out))"

text \<open>An extracted argument, or the rejection.\<close>

definition extracting ::
    "('v, 'f) web \<Rightarrow> raw_request \<Rightarrow> ('v, 'c) node \<Rightarrow> 'a option \<Rightarrow> ('a \<Rightarrow> ('v, 'c, 'f) outcome) \<Rightarrow>
     ('v, 'c, 'f) outcome" where
  "extracting W req nd arg run =
     (case arg of
        None \<Rightarrow> answer (rejection W (headers req) (content req)) nd
      | Some a \<Rightarrow> run a)"

text \<open>\<^verbatim>\<open>web::Path\<close> with one and with two components.\<close>

definition path_one :: "('v, 'f) web \<Rightarrow> string list \<Rightarrow> string option" where
  "path_one W caps = (case caps of [a] \<Rightarrow> Some (unquote W a) | _ \<Rightarrow> None)"

definition path_two :: "('v, 'f) web \<Rightarrow> string list \<Rightarrow> (string \<times> string) option" where
  "path_two W caps = (case caps of [a, b] \<Rightarrow> Some (unquote W a, unquote W b) | _ \<Rightarrow> None)"

definition dispatch ::
    "('v, 'f) web \<Rightarrow> ('v, 'c) env \<Rightarrow> 'v surroundings \<Rightarrow> endpoint \<Rightarrow> string list \<Rightarrow> raw_request \<Rightarrow>
     ('v, 'c) server \<Rightarrow> ('v, 'c, 'f) outcome" where
  "dispatch W E S e caps req sv =
     (let hs = headers req; b = content req; nd = state sv;
          one = extracting W req nd (path_one W caps);
          two = extracting W req nd (path_two W caps);
          fields = extracting W req nd (json_fields W hs b)
      in case e of
        JoinCluster \<Rightarrow> extracting W req nd (json_join W hs b) (\<lambda>j.
          let (r, nd', later) = join_cluster E (permit_free S) (join_node j) (join_given j) nd
          in (Reply r, nd', if later then [GossipLater] else []))
      | GetMembership \<Rightarrow> answer (get_membership E nd) nd
      | UpdateMembership \<Rightarrow> extracting W req nd (read_bytes W hs b) (\<lambda>bytes.
          let (r, nd') = update_membership E hs (bincode_membership W bytes) nd in answer r nd')
      | IndirectPing \<Rightarrow> extracting W req nd (json_ping W hs b) (\<lambda>p.
          answer (indirect_ping E (net S) (ping_target p)) nd)
      | Heartbeat \<Rightarrow> answer (heartbeat E) nd
      | PutValueInternal \<Rightarrow> two (\<lambda>path. extracting W req nd (json_version W hs b) (\<lambda>v.
          finish (put_value_internal E hs path v nd)))
      | GetValue \<Rightarrow> two (\<lambda>path. finish (get_value E (fetched S) hs path nd))
      | PutValue \<Rightarrow> two (\<lambda>path. fields (\<lambda>val. finish (put_value E hs path val nd)))
      | PatchValue \<Rightarrow> two (\<lambda>path. fields (\<lambda>upd. finish (patch_value E hs path upd nd)))
      | DeleteValue \<Rightarrow> two (\<lambda>path. finish (delete_value E hs path nd))
      | GetTableStore \<Rightarrow> one (\<lambda>t. answer (get_table_store t nd) nd)
      | GetGlobalStore \<Rightarrow> answer (get_global_store E hs nd) nd
      | GetAllKeys \<Rightarrow> one (\<lambda>t. answer (get_all_keys E t nd) nd)
      | GetMultipleKeys \<Rightarrow> one (\<lambda>t. extracting W req nd (json_keys W hs b) (\<lambda>ks.
          answer (get_multiple_keys t (req_keys ks) nd) nd))
      | SubscribeToKey \<Rightarrow> two (\<lambda>(t, k).
          let (rx, frames, chans) = subscribe_to_key (bc E) (event_json W) t k (channels nd)
          in (StreamReply rx frames, nd\<lparr>channels := chans\<rparr>, []))
      | Access \<Rightarrow> one (\<lambda>user. extracting W req nd (read_bytes W hs b) (\<lambda>bytes.
          finish (access E hs user
            \<lparr>bincode_secret = bincode_access W bytes, json_secret = json_access W bytes\<rparr> nd)))
      | AdminDashboard \<Rightarrow> (DashboardReply, nd, [])
      | AdminLogin \<Rightarrow> extracting W req nd (json_login W hs b) (\<lambda>l. answer (admin_login E (password l)) nd)
      | AdminGetTables \<Rightarrow> answer (admin_get_tables E hs nd) nd
      | AdminGetKeys \<Rightarrow> one (\<lambda>t. answer (admin_get_keys E hs t nd) nd)
      | AdminGetRecord \<Rightarrow> two (\<lambda>path. answer (admin_get_record E hs path nd) nd)
      | AdminPutRecord \<Rightarrow> two (\<lambda>path. fields (\<lambda>val.
          finish (admin_put_record E hs path val nd)))
      | AdminDeleteRecord \<Rightarrow> two (\<lambda>path. finish (admin_delete_record E hs path nd))
      | GetStats \<Rightarrow>
          (StatsReply (get_stats E (average W) (zero_average W) (collector sv) nd), nd, []))"

text \<open>
  One request: routing, dispatch, and the middleware around both, which counts every request
  except one whose handler panicked. An unrouted request is answered 404.
\<close>

definition panicked :: "('v, 'f) http_reply \<Rightarrow> bool" where
  "panicked r \<longleftrightarrow> (case r of Reply resp \<Rightarrow> body resp = NoResponse | _ \<Rightarrow> False)"

definition serve_inner ::
    "('v, 'f) web \<Rightarrow> ('v, 'c) env \<Rightarrow> 'v surroundings \<Rightarrow> raw_request \<Rightarrow> ('v, 'c) server \<Rightarrow>
     ('v, 'c, 'f) outcome" where
  "serve_inner W E S req sv =
     (case router W (if use_https E then https_routes else http_routes) (req_method req)
        (requote W (req_path req)) of
        None \<Rightarrow> answer (respond 404 NoBody) (state sv)
      | Some (e, caps) \<Rightarrow> dispatch W E S e caps req sv)"

definition serve ::
    "('v, 'f) web \<Rightarrow> ('v, 'c) env \<Rightarrow> 'v surroundings \<Rightarrow> raw_request \<Rightarrow> ('v, 'c) server \<Rightarrow>
     ('v, 'f) http_reply \<times> ('v, 'c) server \<times> 'v effect list" where
  "serve W E S req sv =
     (let (reply, nd', effects) = serve_inner W E S req sv
      in (reply,
          \<lparr>state = nd',
           collector = (if panicked reply then collector sv
                        else snd (middleware_call (Inr () :: unit + unit) (elapsed S) (collector sv)))\<rparr>,
          effects))"

text \<open>The server at the end of \<^verbatim>\<open>main\<close>, and a run of requests, each in its own circumstances.\<close>

definition server_new :: "('v, 'c) node \<Rightarrow> ('v, 'c) server" where
  "server_new nd = \<lparr>state = nd, collector = metrics_new\<rparr>"

fun serve_requests ::
    "('v, 'f) web \<Rightarrow> (('v, 'c) env \<times> 'v surroundings \<times> raw_request) list \<Rightarrow> ('v, 'c) server \<Rightarrow>
     ('v, 'c) server" where
  "serve_requests W [] sv = sv"
| "serve_requests W ((E, S, req) # rs) sv = serve_requests W rs (fst (snd (serve W E S req sv)))"

section \<open>How a request changes the state\<close>

text \<open>
  The ways the state of a process changes while one request with headers \<open>hs\<close> is handled.
  \<open>V\<close> says which versions an internal write may carry.
\<close>

inductive handled ::
    "('v, 'c) env \<Rightarrow> http_request \<Rightarrow> ('v versioned_value \<Rightarrow> bool) \<Rightarrow> ('v, 'c) node \<Rightarrow> ('v, 'c) node \<Rightarrow> bool"
  for E :: "('v, 'c) env" and hs :: http_request and V :: "'v versioned_value \<Rightarrow> bool"
    and nd :: "('v, 'c) node" where
  unchanged: "handled E hs V nd nd"
| joined: "handled E hs V nd (fst (snd (join_cluster E free n s nd)))"
| gossiped: "handled E hs V nd (snd (update_membership E hs ms nd))"
| internal_put: "V v \<Longrightarrow> handled E hs V nd (fst (snd (put_value_internal E hs (t, k) v nd)))"
| put: "handled E hs V nd (fst (snd (put_value E hs (t, k) val nd)))"
| patch: "handled E hs V nd (fst (snd (patch_value E hs (t, k) upd nd)))"
| deleted: "handled E hs V nd (fst (snd (delete_value E hs (t, k) nd)))"
| subscribed: "handled E hs V nd (nd\<lparr>channels := snd (subscribe (bc E) t k (channels nd))\<rparr>)"
| accessed: "handled E hs V nd (fst (snd (access E hs user b nd)))"
| admin_put: "handled E hs V nd (fst (snd (admin_put_record E hs (t, k) val nd)))"
| admin_deleted: "handled E hs V nd (fst (snd (admin_delete_record E hs (t, k) nd)))"

inductive_cases handledE: "handled E hs V nd nd'"

definition carried :: "('v, 'f) web \<Rightarrow> raw_request \<Rightarrow> 'v versioned_value \<Rightarrow> bool" where
  "carried W req v \<longleftrightarrow> json_version W (headers req) (content req) = Some v"

lemma extracting_state:
  "fst (snd (extracting W req nd arg run)) = (case arg of None \<Rightarrow> nd | Some a \<Rightarrow> fst (snd (run a)))"
  by (simp add: extracting_def answer_def split: option.splits)

lemma handled_extracting:
  assumes "\<And>a. arg = Some a \<Longrightarrow> handled E hs V nd (fst (snd (run a)))"
  shows "handled E hs V nd (fst (snd (extracting W req nd arg run)))"
  using assms by (auto simp: extracting_state intro: handled.unchanged split: option.splits)

lemma finish_state [simp]: "fst (snd (finish res)) = fst (snd res)"
  by (simp add: finish_def split: prod.splits)

lemma answer_state [simp]: "fst (snd (answer r nd)) = nd"
  by (simp add: answer_def)

lemma case_state:
  "fst (snd (case x of (r, nd', later) \<Rightarrow> (Reply r, nd', g later))) = fst (snd x)"
  "fst (snd (case y of (r, nd') \<Rightarrow> answer r nd')) = snd y"
  by (simp_all split: prod.splits)

lemma dispatch_handled:
  "handled E (headers req) (carried W req) (state sv) (fst (snd (dispatch W E S e caps req sv)))"
proof (cases e)
  case JoinCluster
  then show ?thesis
    by (auto simp: dispatch_def Let_def case_state intro!: handled_extracting handled.joined)
next
  case UpdateMembership
  then show ?thesis
    by (auto simp: dispatch_def Let_def case_state intro!: handled_extracting handled.gossiped)
next
  case PutValueInternal
  then show ?thesis
    by (auto simp: dispatch_def Let_def carried_def intro!: handled_extracting handled.internal_put)
next
  case SubscribeToKey
  then show ?thesis
    by (auto simp: dispatch_def Let_def subscribe_to_key_def case_prod_beta
        intro!: handled_extracting handled.subscribed)
qed (auto simp: dispatch_def Let_def get_value_pure
    intro!: handled_extracting handled.unchanged handled.put handled.patch handled.deleted
      handled.accessed handled.admin_put handled.admin_deleted)

lemma serve_handled:
  "handled E (headers req) (carried W req) (state sv) (state (fst (snd (serve W E S req sv))))"
proof -
  have "state (fst (snd (serve W E S req sv))) = fst (snd (serve_inner W E S req sv))"
    by (simp add: serve_def split: prod.splits)
  then show ?thesis
    by (auto simp: serve_inner_def dispatch_handled intro: handled.unchanged split: option.splits)
qed

text \<open>
  What the program relies on in the router: it takes the first registered route whose method and
  pattern both fit.
\<close>

definition first_match :: "('v, 'f) web \<Rightarrow> bool" where
  "first_match W \<longleftrightarrow>
     (\<forall>rs m path. router W rs m path = Option.bind (path_segments path) (\<lambda>segs. first_route m segs rs))"

lemma router_routes:
  "first_match W \<Longrightarrow>
   router W (if tls then https_routes else http_routes) m path = route_request tls m path"
  by (simp add: first_match_def route_request_def)

lemma serve_routed:
  assumes "first_match W"
    and "route_request (use_https E) (req_method req) (requote W (req_path req)) = Some (e, caps)"
  shows "state (fst (snd (serve W E S req sv))) = fst (snd (dispatch W E S e caps req sv))"
  using assms by (simp add: serve_def serve_inner_def router_routes split: prod.splits)

section \<open>Lemmas on the handled requests\<close>

text \<open>What opens the internal and the administration paths.\<close>

definition privileged :: "('v, 'c) env \<Rightarrow> http_request \<Rightarrow> bool" where
  "privileged E hs \<longleftrightarrow> provided_secret_of hs = cluster_secret E \<or> validate_admin_token E hs"

lemma internal_provided: "internal_request E hs \<Longrightarrow> provided_secret_of hs = cluster_secret E"
  by (cases "fmlookup hs ''X-Internal-Request''")
    (auto simp: internal_request_def provided_secret_of_def split: option.splits)

lemma join_cluster_keeps [simp]:
  "store (fst (snd (join_cluster E free n s nd))) = store nd"
  "channels (fst (snd (join_cluster E free n s nd))) = channels nd"
  by (simp_all add: join_cluster_def Let_def)

lemma update_membership_keeps [simp]:
  "store (snd (update_membership E hs ms nd)) = store nd"
  "channels (snd (update_membership E hs ms nd)) = channels nd"
  by (simp_all add: update_membership_def split: option.splits)

text \<open>An access by a client changes at most the account it names, and only if there is none.\<close>

lemma access_store:
  assumes "\<not> internal_request E hs"
  shows "store_get t k (store (fst (snd (access E hs user b nd)))) = store_get t k (store nd) \<or>
    t = ''auth'' \<and> k = user \<and> store_get t k (store nd) = None \<and>
    (\<exists>v. store_get t k (store (fst (snd (access E hs user b nd)))) = Some v \<and> owner v = user)"
proof (cases "json_secret b")
  case (Some s)
  then show ?thesis
    using assms
    by (auto simp: access_def check_account_def Let_def store_simps vv_new_def
        split: option.splits sum.splits bool.splits prod.splits)
qed (simp add: access_def assms)

lemma admin_refused:
  "\<not> validate_admin_token E hs \<Longrightarrow> fst (snd (admin_put_record E hs path val nd)) = nd"
  "\<not> validate_admin_token E hs \<Longrightarrow> fst (snd (admin_delete_record E hs path nd)) = nd"
  by (simp_all add: admin_put_record_def admin_delete_record_def split: prod.splits)

text \<open>A record that exists survives a request that is neither privileged nor its owner's.\<close>

lemma handled_foreign:
  assumes "handled E hs V nd nd'" and "store_get t k (store nd) = Some v"
    and "\<not> privileged E hs" and "extract_user_from_token E hs \<noteq> Inr (owner v)"
  shows "store_get t k (store nd') = Some v"
  using assms(1)
proof cases
  case (internal_put v' t' k')
  then show ?thesis
    using assms(2,3) put_value_internal_store [OF triple_collapse, of t k E hs t' k' v' nd]
    by (auto simp: privileged_def)
next
  case (put t' k' val)
  then show ?thesis
    using assms(2,4) put_value_store [OF triple_collapse, of t k E hs t' k' val nd]
    by (auto simp: put_cell_def split: sum.splits)
next
  case (patch t' k' upd)
  then show ?thesis
    using assms(2,4) patch_value_store [OF triple_collapse, of t k E hs t' k' upd nd]
    by (auto simp: patch_cell_def split: sum.splits)
next
  case (deleted t' k')
  then show ?thesis
    using assms(2-4) delete_value_store [OF triple_collapse, of t k E hs t' k' nd]
    by (auto simp: delete_cell_def privileged_def dest: internal_provided split: sum.splits)
next
  case (accessed user b)
  then show ?thesis
    using assms(2,3) access_store [of E hs t k user b nd] by (auto simp: privileged_def dest: internal_provided)
qed (use assms in \<open>auto simp: privileged_def admin_refused\<close>)

lemma dispatch_get:
  assumes "(GET, pat, e) \<in> set https_routes"
  shows "store (fst (snd (dispatch W E S e caps req sv))) = store (state sv) \<and>
    nodes (fst (snd (dispatch W E S e caps req sv))) = nodes (state sv)"
  using assms
  by (auto simp: https_routes_def dispatch_def Let_def extracting_state get_value_pure
      split: option.splits prod.splits)

lemma extracting_sends:
  "snd (snd (extracting W req nd arg run)) = (case arg of None \<Rightarrow> [] | Some a \<Rightarrow> snd (snd (run a)))"
  by (simp add: extracting_def answer_def split: option.splits)

lemma get_value_sends:
  "x \<in> set (snd (snd (get_value E remote hs path nd))) \<Longrightarrow>
   \<exists>tgt t k v. x = PutInternal tgt t k v (cluster_secret E) 1"
  using get_value_repairs [of x E remote hs "fst path" "snd path" nd] by auto

lemma outcome_sends [simp]:
  "snd (snd (answer r nd)) = []" "snd (snd (finish res)) = map Send (snd (snd res))"
  by (simp_all add: answer_def finish_def split: prod.splits)

lemma dispatch_get_sends:
  assumes "(GET, pat, e) \<in> set https_routes"
    and "x \<in> set (snd (snd (dispatch W E S e caps req sv)))"
  shows "\<exists>tgt t k v. x = Send (PutInternal tgt t k v (cluster_secret E) 1)"
  using assms
  by (auto simp: https_routes_def dispatch_def Let_def extracting_sends case_prod_beta
      simp del: One_nat_def split: option.splits) (rule get_value_sends)

section \<open>A sample framework\<close>

text \<open>
  Concrete extractors: the text \<open>k:v\<close> is an object with one field, decoding is the
  identity, other bodies are taken as they are.
\<close>

definition sample_web :: "(string, nat) web" where
  "sample_web =
     \<lparr>router = (\<lambda>rs m path. Option.bind (path_segments path) (\<lambda>segs. first_route m segs rs)),
      requote = (\<lambda>s. s), unquote = (\<lambda>s. s),
      json_fields = (\<lambda>hs b. case b of [] \<Rightarrow> None | c # v \<Rightarrow> Some (fmupd [c] v fmempty)),
      json_version = (\<lambda>hs b. Some (vv_new 7 (fmupd ''f'' b fmempty) ''alice'' ''n2'')),
      json_keys = (\<lambda>hs b. Some \<lparr>req_keys = [b]\<rparr>),
      json_join = (\<lambda>hs b. Some \<lparr>join_node = b, join_given = ''cs''\<rparr>),
      json_ping = (\<lambda>hs b. Some \<lparr>ping_target = b\<rparr>),
      json_login = (\<lambda>hs b. Some \<lparr>password = b\<rparr>),
      read_bytes = (\<lambda>hs b. Some b),
      bincode_membership = (\<lambda>b. None), bincode_access = Some, json_access = Some,
      rejection = (\<lambda>hs b. respond 400 NoBody), event_json = (\<lambda>e. None),
      average = (\<lambda>l n. 0), zero_average = 0\<rparr>"

lemma sample_web_first_match: "first_match sample_web"
  by (simp add: first_match_def sample_web_def)

definition sample_surroundings :: "string surroundings" where
  "sample_surroundings =
     \<lparr>fetched = (\<lambda>_. FetchFailed), permit_free = True,
      net = \<lparr>get_ok = (\<lambda>_. True), post_ok = (\<lambda>_ _. True)\<rparr>, elapsed = 1000\<rparr>"

definition sample_request :: "http_method \<Rightarrow> string \<Rightarrow> http_request \<Rightarrow> string \<Rightarrow> raw_request" where
  "sample_request m p hs b = \<lparr>req_method = m, req_path = p, headers = hs, content = b\<rparr>"

section \<open>Which handler a request reaches\<close>

text \<open>
  C13: routes are unambiguous. A request whose method and path fit an entry of the table reaches
  that entry, with the captured segments, whatever entries stand before it, in both server modes;
  the one exception is POST /auth/keys, the registration and login path of a user called
  \<^verbatim>\<open>keys\<close>, which goes to the handler for several keys of a table.
\<close>

theorem routes_unambiguous:
  assumes "first_match W" and "(m, pat, e) \<in> set https_routes" and "path_segments path = Some segs"
    and "match_segments pat segs = Some caps"
  shows "router W (if tls then https_routes else http_routes) m path =
    (if (m, segs) = (POST, [''auth'', ''keys'']) then Some (GetMultipleKeys, [''auth'']) else Some (e, caps))"
  unfolding router_routes [OF assms(1)] by (rule route_request_unambiguous [OF assms(2-4)])

theorem routes_unambiguous_witness:
  "router sample_web https_routes PUT ''/admin/table/t/key/k'' = Some (AdminPutRecord, [''t'', ''k'']) \<and>
   router sample_web http_routes POST ''/auth/keys'' = Some (GetMultipleKeys, [''auth''])"
proof -
  have "path_segments ''/admin/table/t/key/k'' = Some [''admin'', ''table'', ''t'', ''key'', ''k'']"
    and "path_segments ''/auth/keys'' = Some [''auth'', ''keys'']"
    by (simp_all add: path_segments_def split_slashes.simps)
  moreover have "(PUT, [Lit ''admin'', Lit ''table'', Var ''table'', Lit ''key'', Var ''key''], AdminPutRecord)
      \<in> set https_routes" and "(POST, [Lit ''auth'', Var ''user''], Access) \<in> set https_routes"
    by (simp_all add: https_routes_def)
  ultimately show ?thesis
    using routes_unambiguous [OF sample_web_first_match, where tls = True and m = PUT]
      routes_unambiguous [OF sample_web_first_match, where tls = False and m = POST and segs = "[''auth'', ''keys'']"]
    by simp
qed

section \<open>Properties of the server\<close>

text \<open>
  C2: nobody else touches a record. Whatever requests a server answers, one after the other, on any path, with any
  method and any body: a record that exists stays exactly as it is, through the whole run, unless
  one of the requests carries a token of the record's owner, the cluster secret, or an administrator token.
\<close>

theorem foreign_requests_harmless:
  assumes "store_get t k (store (state sv)) = Some v"
    and "\<forall>(E, S, req) \<in> set rs. \<not> privileged E (headers req) \<and>
      extract_user_from_token E (headers req) \<noteq> Inr (owner v)"
  shows "store_get t k (store (state (serve_requests W rs sv))) = Some v"
  using assms
proof (induction W rs sv rule: serve_requests.induct)
  case (2 W E S req rs sv)
  have "store_get t k (store (state (fst (snd (serve W E S req sv))))) = Some v"
    using 2(2,3) by (intro handled_foreign [OF serve_handled]) auto
  with 2 show ?case
    by simp
qed simp

theorem foreign_requests_harmless_witness:
  "store_get ''t'' ''k'' (store (state (serve_requests sample_web
      [(sample_env ''n1'' 9, sample_surroundings, sample_request PUT ''/t/key/k'' (bearer ''Ubob'') ''fx''),
       (sample_env ''n1'' 10, sample_surroundings, sample_request DELETE ''/t/key/k'' fmempty '''')]
      (server_new sample_node)))) =
   Some (vv_new 5 (fmupd ''f'' ''x'' fmempty) ''alice'' ''n1'')"
proof (rule foreign_requests_harmless)
  show "store_get ''t'' ''k'' (store (state (server_new sample_node))) =
      Some (vv_new 5 (fmupd ''f'' ''x'' fmempty) ''alice'' ''n1'')"
    by code_simp
  have "\<not> privileged (sample_env ''n1'' 9) (bearer ''Ubob'')" "\<not> privileged (sample_env ''n1'' 10) fmempty"
    "extract_user_from_token (sample_env ''n1'' 9) (bearer ''Ubob'') = Inr ''bob''"
    "extract_user_from_token (sample_env ''n1'' 10) fmempty = Inl (respond 401 (ErrorJson ''Missing Authorization header''))"
    by code_simp+
  then show "\<forall>(E, S, req) \<in> set [(sample_env ''n1'' 9, sample_surroundings, sample_request PUT ''/t/key/k'' (bearer ''Ubob'') ''fx''),
       (sample_env ''n1'' 10, sample_surroundings, sample_request DELETE ''/t/key/k'' fmempty '''')].
      \<not> privileged E (headers req) \<and> extract_user_from_token E (headers req) \<noteq>
        Inr (owner (vv_new 5 (fmupd ''f'' ''x'' fmempty) ''alice'' ''n1''))"
    by (simp add: sample_request_def vv_new_def)
qed

text \<open>
  C20: GET requests do not write. A GET on any path leaves the store and the membership table as they were,
  and the only messages it causes are read repairs: single-attempt internal writes.
\<close>

theorem get_requests_read_only:
  assumes "first_match W" and "req_method req = GET" and "serve W E S req sv = (reply, sv', effects)"
  shows "store (state sv') = store (state sv) \<and> nodes (state sv') = nodes (state sv) \<and>
    (\<forall>x \<in> set effects. \<exists>tgt t k v. x = Send (PutInternal tgt t k v (cluster_secret E) 1))"
proof -
  obtain r nd' where run: "serve_inner W E S req sv = (r, nd', effects)" and nd': "state sv' = nd'"
    using assms(3) by (auto simp: serve_def split: prod.splits)
  show ?thesis
  proof (cases "route_request (use_https E) (req_method req) (requote W (req_path req))")
    case None
    with run nd' show ?thesis
      by (auto simp: serve_inner_def answer_def router_routes [OF assms(1)])
  next
    case (Some ec)
    obtain e caps where ec: "ec = (e, caps)"
      by fastforce
    with Some assms(2) obtain pat where route: "(GET, pat, e) \<in> set https_routes"
      by (auto simp: route_request_def route_tables_agree bind_eq_Some_conv dest!: first_route_mem split: if_splits)
    from run Some ec have "dispatch W E S e caps req sv = (r, nd', effects)"
      by (simp add: serve_inner_def router_routes [OF assms(1)])
    with dispatch_get [OF route, of W E S caps req sv] dispatch_get_sends [OF route, where W = W and E = E and S = S and caps = caps and req = req and sv = sv] nd'
    show ?thesis
      by auto
  qed
qed

theorem get_requests_read_only_witness:
  "store (state (fst (snd (serve sample_web (sample_env ''n1'' 9) sample_surroundings
      (sample_request GET ''/t/subscribe/k'' fmempty []) (server_new sample_node))))) = store sample_node"
proof -
  have "req_method (sample_request GET ''/t/subscribe/k'' fmempty []) = GET"
    by (simp add: sample_request_def)
  from get_requests_read_only [OF sample_web_first_match this triple_collapse, of "sample_env ''n1'' 9"
      sample_surroundings "server_new sample_node"] show ?thesis
    by (simp add: server_new_def)
qed

end
