(* ===== verification/Wire.thy ===== *)
theory Wire
  imports Server
begin

text \<open>
  The messages of the background tasks as HTTP requests: how the sending tasks build them, and
  what the receiving server does with them. The parsing of URLs and the encoding of bodies
  (reqwest, serde, bincode) are a parameter, the record \<open>client\<close>.
\<close>

section \<open>Sending\<close>

text \<open>
  \<open>url_path\<close> is the path the client requests for a URL, \<^const>\<open>None\<close> if the URL does not parse.
\<close>

record 'v client =
  url_path :: "string \<Rightarrow> string option"
  encode_version :: "'v versioned_value \<Rightarrow> string"
  encode_access :: "string \<Rightarrow> string"
  encode_membership :: "membership \<Rightarrow> string"

fun message_headers :: "'v outgoing \<Rightarrow> http_request" where
  "message_headers (PutInternal _ _ _ _ secret _) =
     fmupd ''Content-Type'' (HText ''application/json'') (fmupd ''X-Internal-Request'' (header_of secret) fmempty)"
| "message_headers (DeleteKey _ _ _ secret _) = fmupd ''X-Internal-Request'' (header_of secret) fmempty"
| "message_headers (ReplicateUser _ u _ secret) =
     fmupd ''Content-Type'' (HText ''application/octet-stream'')
       (fmupd ''User'' (header_of u) (fmupd ''X-Internal-Request'' (header_of secret) fmempty))"
| "message_headers (GossipMembership _ _ _ secret) =
     fmupd ''X-Cluster-Token'' (header_of secret)
       (fmupd ''Content-Type'' (HText ''application/octet-stream'') fmempty)"

fun message_method :: "'v outgoing \<Rightarrow> http_method" where
  "message_method (PutInternal _ _ _ _ _ _) = PUT"
| "message_method (DeleteKey _ _ _ _ _) = DELETE"
| "message_method (ReplicateUser _ _ _ _) = POST"
| "message_method (GossipMembership _ _ _ _) = POST"

fun message_content :: "'v client \<Rightarrow> 'v outgoing \<Rightarrow> string" where
  "message_content C (PutInternal _ _ _ v _ _) = encode_version C v"
| "message_content C (DeleteKey _ _ _ _ _) = []"
| "message_content C (ReplicateUser _ _ hashed _) = encode_access C hashed"
| "message_content C (GossipMembership _ _ ms _) = encode_membership C ms"

definition message_request :: "'v client \<Rightarrow> 'v outgoing \<Rightarrow> raw_request option" where
  "message_request C msg =
     map_option (\<lambda>p. \<lparr>req_method = message_method msg, req_path = p,
         headers = message_headers msg, content = message_content C msg\<rparr>)
       (url_path C (outgoing_url msg))"

section \<open>Listening\<close>

text \<open>
  The listener \<^verbatim>\<open>main\<close> binds: plain HTTP, or TLS that demands a client certificate signed by the
  configured authority (\<^verbatim>\<open>PEER | FAIL_IF_NO_PEER_CERT\<close>). The clients of the program are built
  without a certificate.
\<close>

datatype listener =
    PlainHttp
  | MutualTls (private_key: string) (certificate_chain: string) (ca_file: string)

definition listener_of :: "('v, 'c) env \<Rightarrow> listener" where
  "listener_of E =
     (if use_https E then MutualTls ''./cert/server.key'' ''./cert/server.crt'' ''./cert/ca.crt''
      else PlainHttp)"

definition client_certificate :: "string option" where
  "client_certificate = None"

definition accepts :: "listener \<Rightarrow> string \<Rightarrow> string option \<Rightarrow> bool" where
  "accepts l url cert =
     (case l of
        PlainHttp \<Rightarrow> starts_with ''http://'' url
      | MutualTls _ _ _ \<Rightarrow> starts_with ''https://'' url \<and> cert \<noteq> None)"

section \<open>Paths of plain names\<close>

text \<open>
  A plain name consists of letters, digits, hyphens, underscores and tildes: characters that are never percent-encoded.
\<close>

definition plain_char :: "char \<Rightarrow> bool" where
  "plain_char c \<longleftrightarrow>
     (let n = (of_char c :: nat)
      in n \<in> {45, 95, 126} \<or> n \<in> {48..57} \<or> n \<in> {65..90} \<or> n \<in> {97..122})"

definition plain :: "string \<Rightarrow> bool" where
  "plain s \<longleftrightarrow> s \<noteq> [] \<and> (\<forall>c \<in> set s. plain_char c)"

definition join_path :: "string list \<Rightarrow> string" where
  "join_path segs = concat (map (Cons (CHR ''/'')) segs)"

lemma join_path_simps [simp]:
  "join_path [] = []" "join_path (s # segs) = CHR ''/'' # s @ join_path segs"
  by (simp_all add: join_path_def)

lemma plain_no_slash: "plain s \<Longrightarrow> CHR ''/'' \<notin> set s"
  by (auto simp: plain_def plain_char_def)

lemma plain_nonempty: "plain s \<Longrightarrow> s \<noteq> []"
  by (simp add: plain_def)

lemma split_join_path:
  "CHR ''/'' \<notin> set s \<Longrightarrow> \<forall>x \<in> set segs. CHR ''/'' \<notin> set x \<Longrightarrow>
   split_slashes (s @ join_path segs) = s # segs"
proof (induction segs arbitrary: s)
  case (Cons x segs)
  then show ?case
    using split_slashes_cons [of s "x @ join_path segs"] by simp
qed (simp add: split_slashes_plain)

lemma path_segments_join:
  "segs \<noteq> [] \<Longrightarrow> \<forall>x \<in> set segs. CHR ''/'' \<notin> set x \<Longrightarrow> path_segments (join_path segs) = Some segs"
  by (cases segs) (simp_all add: path_segments_def split_join_path)

text \<open>The path of each message.\<close>

fun message_segments :: "'v outgoing \<Rightarrow> string list" where
  "message_segments (PutInternal _ t k _ _ _) = [''internal'', t, ''key'', k]"
| "message_segments (DeleteKey _ t k _ _) = [t, ''key'', k]"
| "message_segments (ReplicateUser _ u _ _) = [''auth'', u]"
| "message_segments (GossipMembership _ _ _ _) = [''update_membership'']"

section \<open>What client and framework are documented to do\<close>

text \<open>
  A URL with an authority and plain segments is requested with exactly these segments; the
  router and the extractor leave plain text as it is.
\<close>

definition plain_urls :: "'v client \<Rightarrow> string \<Rightarrow> bool" where
  "plain_urls C base \<longleftrightarrow>
     (\<forall>segs. segs \<noteq> [] \<longrightarrow> (\<forall>s \<in> set segs. plain s) \<longrightarrow> url_path C (base @ join_path segs) = Some (join_path segs))"

definition plain_paths :: "('v, 'f) web \<Rightarrow> bool" where
  "plain_paths W \<longleftrightarrow>
     (\<forall>segs. (\<forall>s \<in> set segs. plain s) \<longrightarrow> requote W (join_path segs) = join_path segs) \<and>
     (\<forall>s. plain s \<longrightarrow> unquote W s = s)"

text \<open>The receiver reads from the body what the sender wrote.\<close>

fun readable :: "('v, 'f) web \<Rightarrow> 'v client \<Rightarrow> 'v outgoing \<Rightarrow> bool" where
  "readable W C (PutInternal tgt t k v secret n) \<longleftrightarrow>
     json_version W (message_headers (PutInternal tgt t k v secret n)) (encode_version C v) = Some v"
| "readable W C (DeleteKey _ _ _ _ _) \<longleftrightarrow> True"
| "readable W C (ReplicateUser tgt u hashed secret) \<longleftrightarrow>
     (\<exists>bytes. read_bytes W (message_headers (ReplicateUser tgt u hashed secret :: 'v outgoing)) (encode_access C hashed) = Some bytes \<and>
       bincode_access W bytes = Some hashed \<and> json_access W bytes = None)"
| "readable W C (GossipMembership tgt url ms secret) \<longleftrightarrow>
     (\<exists>bytes. read_bytes W (message_headers (GossipMembership tgt url ms secret :: 'v outgoing)) (encode_membership C ms) = Some bytes \<and>
       bincode_membership W bytes = Some ms)"

text \<open>Messages whose names are plain and whose target the client can address.\<close>

fun addressable :: "'v client \<Rightarrow> 'v outgoing \<Rightarrow> bool" where
  "addressable C (PutInternal tgt t k _ secret _) \<longleftrightarrow>
     plain_urls C (''http://'' @ tgt) \<and> plain t \<and> plain k \<and> header_text secret"
| "addressable C (DeleteKey tgt t k secret _) \<longleftrightarrow>
     plain_urls C (''http://'' @ tgt) \<and> plain t \<and> plain k \<and> header_text secret"
| "addressable C (ReplicateUser tgt u _ secret) \<longleftrightarrow>
     plain_urls C (''http://'' @ tgt) \<and> plain u \<and> u \<noteq> ''keys'' \<and> header_text secret"
| "addressable C (GossipMembership _ url _ secret) \<longleftrightarrow>
     (\<exists>base. url = base @ join_path [''update_membership''] \<and> plain_urls C base) \<and> header_text secret"

section \<open>What the receiving node is meant to do\<close>

fun receive_message :: "('v, 'c) env \<Rightarrow> 'v outgoing \<Rightarrow> ('v, 'c) node \<Rightarrow> ('v, 'c) node" where
  "receive_message E (PutInternal _ t k v secret _) nd = deliver_put E secret t k v nd"
| "receive_message E (DeleteKey _ t k secret _) nd =
     fst (snd (delete_value E (internal_header secret) (t, k) nd))"
| "receive_message E (ReplicateUser _ u hashed secret) nd = deliver_user E u hashed secret nd"
| "receive_message E (GossipMembership _ _ ms secret) nd =
     snd (update_membership E (cluster_header secret) (Some ms) nd)"

section \<open>Lemmas\<close>

lemma plain_words [simp]:
  "plain ''internal''" "plain ''key''" "plain ''auth''" "plain ''update_membership''"
  by (simp_all add: plain_def plain_char_def)

lemma plain_header: "plain s \<Longrightarrow> header_text s"
proof -
  have "plain_char c \<Longrightarrow> CHR 0x20 \<le> c \<and> c < CHR 0x7F" for c
    by (auto simp: plain_char_def Let_def less_eq_char_def less_char_def)
  then show "plain s \<Longrightarrow> header_text s"
    by (auto simp: plain_def header_text_def)
qed

lemma put_value_internal_headers:
  "provided_secret_of hs = provided_secret_of hs' \<Longrightarrow>
   put_value_internal E hs path v nd = put_value_internal E hs' path v nd"
  by (simp add: put_value_internal_def)

lemma update_membership_headers:
  "cluster_token_ok E hs = cluster_token_ok E hs' \<Longrightarrow>
   update_membership E hs ms nd = update_membership E hs' ms nd"
  by (simp add: update_membership_def)

lemma access_headers:
  assumes "internal_request E hs = internal_request E hs'" and "fmlookup hs ''User'' = fmlookup hs' ''User''"
  shows "access E hs u b nd = access E hs' u b nd"
  unfolding access_def access_internal_def assms ..

lemma message_path:
  assumes "addressable C msg"
  shows "url_path C (outgoing_url msg) = Some (join_path (message_segments msg))"
    and "\<forall>s \<in> set (message_segments msg). plain s"
proof -
  have url: "plain_urls C base \<Longrightarrow> segs \<noteq> [] \<Longrightarrow> \<forall>s \<in> set segs. plain s \<Longrightarrow>
      url_path C (base @ join_path segs) = Some (join_path segs)" for base segs
    by (simp add: plain_urls_def)
  show plain: "\<forall>s \<in> set (message_segments msg). plain s"
    using assms by (cases msg) auto
  obtain base where "outgoing_url msg = base @ join_path (message_segments msg)" and "plain_urls C base"
  proof -
    have "\<exists>base. outgoing_url msg = base @ join_path (message_segments msg) \<and> plain_urls C base"
    proof (cases msg)
      case (PutInternal tgt t k v secret n)
      with assms show ?thesis
        by (intro exI [of _ "''http://'' @ tgt"]) simp
    next
      case (DeleteKey tgt t k secret n)
      with assms show ?thesis
        by (intro exI [of _ "''http://'' @ tgt"]) simp
    next
      case (ReplicateUser tgt u h secret)
      with assms show ?thesis
        by (intro exI [of _ "''http://'' @ tgt"]) simp
    next
      case (GossipMembership tgt url ms secret)
      with assms show ?thesis
        by auto
    qed
    then show thesis
      using that by blast
  qed
  moreover have "message_segments msg \<noteq> []"
    by (cases msg) auto
  ultimately show "url_path C (outgoing_url msg) = Some (join_path (message_segments msg))"
    using url plain by metis
qed

lemma serve_reply:
  assumes "first_match W"
    and "route_request (use_https E) (req_method req) (requote W (req_path req)) = Some (e, caps)"
  shows "fst (serve W E S req sv) = fst (dispatch W E S e caps req sv)"
  using assms by (simp add: serve_def serve_inner_def router_routes split: prod.splits)

text \<open>The route of each message.\<close>

lemma message_route:
  assumes "addressable C msg" and "plain_paths W"
  shows "route_request tls (message_method msg) (requote W (join_path (message_segments msg))) =
    (case msg of
       PutInternal _ t k _ _ _ \<Rightarrow> Some (PutValueInternal, [t, k])
     | DeleteKey _ t k _ _ \<Rightarrow> Some (DeleteValue, [t, k])
     | ReplicateUser _ u _ _ \<Rightarrow> Some (Access, [u])
     | GossipMembership _ _ _ _ \<Rightarrow> Some (UpdateMembership, []))"
proof -
  have "requote W (join_path (message_segments msg)) = join_path (message_segments msg)"
    using message_path(2) [OF assms(1)] assms(2) by (simp add: plain_paths_def)
  moreover have "path_segments (join_path (message_segments msg)) = Some (message_segments msg)"
    using message_path(2) [OF assms(1)] by (intro path_segments_join) (auto dest: plain_no_slash, cases msg, auto)
  ultimately show ?thesis
    using assms(1)
    by (cases msg) (auto simp: route_request_def http_routes_def https_routes_def plain_nonempty)
qed

text \<open>What the routed handler does, message by message.\<close>

lemma put_arrives:
  assumes "addressable C (PutInternal tgt t k v secret n)" and "plain_paths W"
    and "json_version W (headers req) (content req) = Some v"
    and "headers req = message_headers (PutInternal tgt t k v secret n)"
  shows "fst (snd (dispatch W E S PutValueInternal [t, k] req sv)) = deliver_put E secret t k v (state sv)"
proof -
  have "put_value_internal E (headers req) (t, k) v (state sv) =
      put_value_internal E (internal_header secret) (t, k) v (state sv)"
    using assms(1,4)
    by (intro put_value_internal_headers) (simp add: provided_secret_of_def internal_header_def)
  with assms(1-3) show ?thesis
    by (simp add: dispatch_def Let_def path_two_def plain_paths_def extracting_def deliver_put_def)
qed

lemma user_arrives:
  assumes "addressable C (ReplicateUser tgt u hashed secret)" and "plain_paths W"
    and "read_bytes W (headers req) (content req) = Some bytes"
    and "bincode_access W bytes = Some hashed" and "json_access W bytes = None"
    and "headers req = message_headers (ReplicateUser tgt u hashed secret :: 'v outgoing)"
  shows "fst (snd (dispatch W E S Access [u] req sv)) = deliver_user E u hashed secret (state sv)"
proof -
  have "access E (headers req) u b (state sv) = access E (replicate_user_request u secret) u b (state sv)" for b
    using assms(1,6)
    by (intro access_headers)
      (simp_all add: replicate_user_request_def internal_request_def internal_header_def plain_header)
  with assms(1-5) show ?thesis
    by (simp add: dispatch_def Let_def path_one_def plain_paths_def extracting_def deliver_user_def)
qed

lemma gossip_arrives:
  assumes "addressable C (GossipMembership tgt url ms secret)"
    and "read_bytes W (headers req) (content req) = Some bytes" and "bincode_membership W bytes = Some ms"
    and "headers req = message_headers (GossipMembership tgt url ms secret :: 'v outgoing)"
  shows "fst (snd (dispatch W E S UpdateMembership [] req sv)) =
    snd (update_membership E (cluster_header secret) (Some ms) (state sv))"
proof -
  have "update_membership E (headers req) (Some ms) (state sv) =
      update_membership E (cluster_header secret) (Some ms) (state sv)"
    using assms(1,4) by (intro update_membership_headers) (simp add: cluster_token_ok_def cluster_header_def)
  with assms(2,3) show ?thesis
    by (simp add: dispatch_def Let_def extracting_def case_state)
qed

section \<open>Properties of the messages\<close>


text \<open>
  The transport decides. In the plain mode the listener accepts every replication message and the
  gossip of nodes in the same mode; in the https mode it accepts no message of any other
  node, neither replication, which is always sent to \<^verbatim>\<open>http://\<close> addresses, nor gossip, because the clients
  of the program have no certificate.
\<close>

theorem transport_accepts:
  assumes "case msg of GossipMembership n url ms s \<Rightarrow> msg \<in> set (gossip_membership E' shuffle nd) | _ \<Rightarrow> True"
  shows "(use_https E \<longrightarrow> \<not> accepts (listener_of E) (outgoing_url msg) client_certificate) \<and>
    (\<not> use_https E \<and> get_scheme E' = ''http'' \<longrightarrow> accepts (listener_of E) (outgoing_url msg) client_certificate)"
proof (cases msg)
  case (GossipMembership n url ms s)
  with assms have "url = build_url E' n ''update_membership''"
    by (auto simp: gossip_membership_def)
  with GossipMembership show ?thesis
    by (simp add: accepts_def listener_of_def client_certificate_def build_url_def Let_def starts_with_def)
qed (simp_all add: accepts_def listener_of_def client_certificate_def starts_with_def)

theorem transport_accepts_witness:
  "accepts (listener_of (sample_env ''n2'' 9))
     (outgoing_url (PutInternal ''n2'' ''t'' ''k'' (vv_new 7 fmempty ''alice'' ''n1'' :: string versioned_value) ''cs'' 3))
     client_certificate"
proof -
  have "\<not> use_https (sample_env ''n2'' 9)" and "get_scheme (sample_env ''n1'' 9) = ''http''"
    by code_simp+
  with transport_accepts [of "PutInternal ''n2'' ''t'' ''k'' (vv_new 7 fmempty ''alice'' ''n1'' :: string versioned_value) ''cs'' 3"
      "sample_env ''n1'' 9" sorted_order sample_node "sample_env ''n2'' 9"]
  show ?thesis
    by simp
qed

text \<open>
  A key with a slash is not replicated. A client can store one (it writes the slash as
  \<^verbatim>\<open>%2F\<close>, which the extractor decodes), but the sender puts the key into the URL as it is, so the
  receiver sees a path with one more segment and answers 404.
\<close>

theorem slash_key_not_replicated:
  assumes "plain_urls C (''http://'' @ tgt)" and "plain_paths W" and "plain t" and "plain a" and "plain b"
    and "first_match W" and "message_request C (PutInternal tgt t (a @ ''/'' @ b) v secret n) = Some req"
  shows "fst (serve W E S req sv) = Reply (respond 404 NoBody) \<and>
    state (fst (snd (serve W E S req sv))) = state sv"
proof -
  let ?segs = "[''internal'', t, ''key'', a, b]"
  have segs: "\<forall>s \<in> set ?segs. plain s"
    using assms(3-5) by simp
  have "outgoing_url (PutInternal tgt t (a @ ''/'' @ b) v secret n) = (''http://'' @ tgt) @ join_path ?segs"
    by simp
  then have "url_path C (outgoing_url (PutInternal tgt t (a @ ''/'' @ b) v secret n)) = Some (join_path ?segs)"
    using assms(1) segs unfolding plain_urls_def by (metis list.distinct(1))
  then have req: "req_path req = join_path ?segs" "req_method req = PUT"
    using assms(7) by (auto simp: message_request_def)
  have "requote W (join_path ?segs) = join_path ?segs"
    using assms(2) segs unfolding plain_paths_def by blast
  moreover have "path_segments (join_path ?segs) = Some ?segs"
    using segs by (intro path_segments_join) (auto dest: plain_no_slash)
  ultimately have "route_request (use_https E) (req_method req) (requote W (req_path req)) = None"
    by (simp add: req route_request_def http_routes_def https_routes_def del: join_path_simps)
  then show ?thesis
    by (simp add: serve_def serve_inner_def answer_def panicked_def router_routes [OF assms(6)])
qed

section \<open>A sample client\<close>

text \<open>
  A client that takes as path what follows the authority and sends the names of the fields it
  encodes; \<open>echo_web\<close> reads them.
\<close>

definition sample_client :: "string client" where
  "sample_client =
     \<lparr>url_path = (\<lambda>u. Some (dropWhile (\<lambda>c. c \<noteq> CHR ''/'') (drop 7 u))),
      encode_version = (\<lambda>v. case fmlookup (vvalue v) ''f'' of Some s \<Rightarrow> s | None \<Rightarrow> []),
      encode_access = (\<lambda>s. s), encode_membership = (\<lambda>ms. [])\<rparr>"

lemma sample_client_plain:
  assumes "CHR ''/'' \<notin> set host"
  shows "plain_urls sample_client (''http://'' @ host)"
proof -
  have "dropWhile (\<lambda>c. c \<noteq> CHR ''/'') (host @ join_path segs) = join_path segs" if "segs \<noteq> []" for segs
    using assms that by (cases segs) (auto simp: dropWhile_append)
  then show ?thesis
    by (simp add: plain_urls_def sample_client_def)
qed

lemma sample_web_plain: "plain_paths sample_web"
  by (simp add: plain_paths_def sample_web_def)


theorem slash_key_not_replicated_witness:
  "fst (serve sample_web (sample_env ''n2'' 9) sample_surroundings
     (the (message_request sample_client (PutInternal ''n2'' ''t'' ''a/b'' (vv_new 7 fmempty ''alice'' ''n1'') ''cs'' 3)))
     (server_new sample_node)) = Reply (respond 404 NoBody)"
proof -
  let ?msg = "PutInternal ''n2'' ''t'' ''a/b'' (vv_new 7 fmempty ''alice'' ''n1'') ''cs'' 3"
  obtain req where req: "message_request sample_client ?msg = Some req"
    by (simp add: message_request_def sample_client_def)
  have key: "''a/b'' = ''a'' @ ''/'' @ ''b''" and host: "plain_urls sample_client (''http://'' @ ''n2'')"
    using sample_client_plain [of "''n2''"] by simp_all
  have names: "plain ''t''" "plain ''a''" "plain ''b''"
    by (simp_all add: plain_def plain_char_def)
  show ?thesis
    unfolding req option.sel
    by (rule conjunct1 [OF slash_key_not_replicated [OF host sample_web_plain names sample_web_first_match req [unfolded key]]])
qed

end
