(* ===== verification/Fetching.thy ===== *)
theory Fetching
  imports Wire
begin

text \<open>
  The requests by which a read asks the other replicas, as HTTP requests served by these nodes,
  and what a read at one node returns of a write at another.
\<close>

section \<open>Asking a replica\<close>

text \<open>
  The request of \<^verbatim>\<open>get_value\<close> to one target, and what it makes of the reply. \<open>parse\<close> stands for
  \<^verbatim>\<open>resp.json::<Option<VersionedValue>>()\<close>.
\<close>

definition fetch_request :: "'v client \<Rightarrow> ('v, 'c) env \<Rightarrow> string \<Rightarrow> string \<Rightarrow> string \<Rightarrow> raw_request option" where
  "fetch_request C E tgt t k =
     map_option (\<lambda>p. \<lparr>req_method = GET, req_path = p,
         headers = fmupd ''X-Internal-Request'' (header_of (cluster_secret E)) fmempty, content = []\<rparr>)
       (url_path C (''http://'' @ tgt @ ''/'' @ t @ ''/key/'' @ k))"

definition fetch_result ::
    "('v body \<Rightarrow> 'v versioned_value option option) \<Rightarrow> ('v, 'f) http_reply \<Rightarrow> 'v fetch" where
  "fetch_result parse reply =
     (case reply of
        Reply r \<Rightarrow>
          if body r = NoResponse then FetchFailed
          else if is_success (code r) then (case parse (body r) of None \<Rightarrow> FetchBadJson | Some v \<Rightarrow> FetchOk v)
          else FetchStatus (code r)
      | _ \<Rightarrow> FetchBadJson)"

text \<open>The answer of the server \<open>sv\<close>, in its own environment, to the node with environment \<open>E\<close>.\<close>

definition ask ::
    "('v, 'f) web \<Rightarrow> 'v client \<Rightarrow> ('v body \<Rightarrow> 'v versioned_value option option) \<Rightarrow> ('v, 'c) env \<Rightarrow>
     string \<Rightarrow> string \<Rightarrow> string \<Rightarrow> ('v, 'c) env \<times> 'v surroundings \<times> ('v, 'c) server \<Rightarrow> 'v fetch" where
  "ask W C parse E t k tgt at =
     (case fetch_request C E tgt t k of
        None \<Rightarrow> FetchFailed
      | Some req \<Rightarrow> (let (E', S', sv) = at in fetch_result parse (fst (serve W E' S' req sv))))"

text \<open>What \<open>parse\<close> is documented to do: read back an optional record.\<close>

definition reads_optional :: "('v body \<Rightarrow> 'v versioned_value option option) \<Rightarrow> bool" where
  "reads_optional parse \<longleftrightarrow> (\<forall>x. parse (MaybeRecordJson x) = Some x)"

section \<open>Lemmas\<close>

lemma key_path_route:
  assumes "plain_paths W" and "plain t" and "plain k"
  shows "route_request tls GET (requote W (join_path [t, ''key'', k])) = Some (GetValue, [t, k])"
    and "route_request tls PUT (requote W (join_path [t, ''key'', k])) = Some (PutValue, [t, k])"
proof -
  have segs: "\<forall>s \<in> set [t, ''key'', k]. plain s"
    using assms(2,3) by simp
  then have "requote W (join_path [t, ''key'', k]) = join_path [t, ''key'', k]"
    using assms(1) unfolding plain_paths_def by blast
  moreover have "path_segments (join_path [t, ''key'', k]) = Some [t, ''key'', k]"
    using segs by (intro path_segments_join) (auto dest: plain_no_slash)
  ultimately show "route_request tls GET (requote W (join_path [t, ''key'', k])) = Some (GetValue, [t, k])"
    and "route_request tls PUT (requote W (join_path [t, ''key'', k])) = Some (PutValue, [t, k])"
    using assms(2,3)
    by (simp_all add: route_request_def http_routes_def https_routes_def plain_nonempty del: join_path_simps)
qed

lemma fetch_request_plain:
  assumes "plain_urls C (''http://'' @ tgt)" and "plain t" and "plain k" and "header_text (cluster_secret E)"
  shows "fetch_request C E tgt t k =
    Some \<lparr>req_method = GET, req_path = join_path [t, ''key'', k],
      headers = internal_header (cluster_secret E), content = []\<rparr>"
proof -
  have "''http://'' @ tgt @ ''/'' @ t @ ''/key/'' @ k = (''http://'' @ tgt) @ join_path [t, ''key'', k]"
    by simp
  moreover have "\<forall>s \<in> set [t, ''key'', k]. plain s"
    using assms(2,3) by simp
  ultimately have "url_path C (''http://'' @ tgt @ ''/'' @ t @ ''/key/'' @ k) = Some (join_path [t, ''key'', k])"
    using assms(1) unfolding plain_urls_def by (metis list.distinct(1))
  with assms(4) show ?thesis
    by (simp add: fetch_request_def internal_header_def)
qed

lemma get_value_foreign_secret:
  "s \<noteq> cluster_secret E \<Longrightarrow>
   fst (get_value E remote (internal_header s) (t, k) nd) = respond 401 (Text ''You are not owning this record'')"
  by (simp add: get_value_def) (simp add: extract_user_from_token_def internal_header_def)

text \<open>GET and PUT of a plain key at the level of requests.\<close>

lemma get_served:
  assumes "first_match W" and "plain_paths W" and "plain t" and "plain k"
    and "req_method req = GET" and "req_path req = join_path [t, ''key'', k]"
  shows "fst (serve W E S req sv) = Reply (fst (get_value E (fetched S) (headers req) (t, k) (state sv)))"
proof -
  have "fst (serve W E S req sv) = fst (dispatch W E S GetValue [t, k] req sv)"
    using key_path_route(1) [OF assms(2-4)] assms(5,6) by (intro serve_reply [OF assms(1)]) simp
  also have "\<dots> = Reply (fst (get_value E (fetched S) (headers req) (t, k) (state sv)))"
    using assms(2-4)
    by (simp add: dispatch_def Let_def path_two_def extracting_def plain_paths_def finish_def split: prod.splits)
  finally show ?thesis .
qed

lemma put_value_accepted:
  "fst (put_value E hs (t, k) val nd) = respond 201 (RecordJson v) \<Longrightarrow>
   store_get t k (store (fst (snd (put_value E hs (t, k) val nd)))) = Some v"
  by (auto simp: put_value_def Let_def store_simps split: sum.splits option.splits if_splits
      dest: extract_user_Inl_code)

lemma put_served:
  assumes "first_match W" and "plain_paths W" and "plain t" and "plain k"
    and "req_method req = PUT" and "req_path req = join_path [t, ''key'', k]"
    and "serve W E S req sv = (Reply (respond 201 (RecordJson v)), sv', effects)"
    and "json_fields W (headers req) (content req) = Some val"
  shows "store_get t k (store (state sv')) = Some v"
proof -
  have route: "route_request (use_https E) (req_method req) (requote W (req_path req)) = Some (PutValue, [t, k])"
    using key_path_route(2) [OF assms(2-4)] assms(5,6) by simp
  have reply: "fst (dispatch W E S PutValue [t, k] req sv) = Reply (respond 201 (RecordJson v))"
    using serve_reply [OF assms(1) route, of S sv] assms(7) by simp
  have state: "state sv' = fst (snd (dispatch W E S PutValue [t, k] req sv))"
    using serve_routed [OF assms(1) route, of S sv] assms(7) by simp
  show ?thesis
    using reply state assms(2-4,8) put_value_accepted [of E "headers req" t k val "state sv" v]
    by (simp add: dispatch_def Let_def path_two_def extracting_def plain_paths_def finish_def split: prod.splits)
qed

text \<open>A replica with the same secret answers with what it stores, any other with 401.\<close>

lemma ask_answer:
  assumes "first_match W" and "plain_paths W" and "plain_urls C (''http://'' @ tgt)" and "reads_optional parse"
    and "plain t" and "plain k" and "header_text (cluster_secret E)"
  shows "ask W C parse E t k tgt (E', S', sv) =
    (if cluster_secret E' = cluster_secret E then FetchOk (store_get t k (store (state sv))) else FetchStatus 401)"
proof -
  let ?req = "\<lparr>req_method = GET, req_path = join_path [t, ''key'', k],
    headers = internal_header (cluster_secret E), content = []\<rparr>"
  have reply: "fst (serve W E' S' ?req sv) =
      Reply (fst (get_value E' (fetched S') (internal_header (cluster_secret E)) (t, k) (state sv)))"
    using get_served [OF assms(1,2,5,6), of ?req E' S' sv] by simp
  have "get_value E' (fetched S') (internal_header (cluster_secret E)) (t, k) (state sv) =
      (respond 200 (MaybeRecordJson (store_get t k (store (state sv)))), state sv, [])"
    if "cluster_secret E' = cluster_secret E"
    by (simp add: get_value_def that)
  with reply get_value_foreign_secret [of "cluster_secret E" E' "fetched S'" t k "state sv"] assms(4)
  show ?thesis
    by (auto simp: ask_def fetch_request_plain [OF assms(3,5,6,7)] fetch_result_def is_success_def
        reads_optional_def)
qed

section \<open>Reading at another node\<close>

text \<open>
  C9: what one node accepted, any node returns. Table and key have plain names (letters, digits and
  hyphen, underscore, tilde: the URLs the nodes build are not percent-encoded) and the cluster secret
  is text a header can carry. A client writes the key at one node with a PUT whose JSON body is read and which is
  answered 201; before any
  replication message has arrived, its owner asks another node for the key. The reader asks the
  replicas over HTTP, the writer, reachable and in the state after the write, answers with its record, and the reader returns exactly it, if the writer is
  active in the reader's view, no positions of the reader's ring collide, the two share the secret, and no answer and no
  record of the reader itself holds a version that
  the written one does not supersede; other replicas may be down, refuse, or be stale.
\<close>

theorem write_read_elsewhere:
  assumes framework: "first_match W" "plain_paths W" "reads_optional parse"
    and names: "plain t" "plain k" "header_text (cluster_secret E\<^sub>r)" "plain_urls C (''http://'' @ current_addr E\<^sub>w)"
    and written: "req_method put = PUT" "req_path put = join_path [t, ''key'', k]"
      "serve W E\<^sub>w S\<^sub>w put sv\<^sub>w = (Reply (respond 201 (RecordJson v)), sv', effects)"
      "json_fields W (headers put) (content put) = Some val"
    and read: "req_method get = GET" "req_path get = join_path [t, ''key'', k]"
      "\<not> internal_request E\<^sub>r (headers get)" "extract_user_from_token E\<^sub>r (headers get) = Inr (owner v)"
    and asked: "\<And>q. up q \<Longrightarrow> fetched S\<^sub>r q = ask W C parse E\<^sub>r t k q (at q)"
      "\<And>q w. fetched S\<^sub>r q = FetchOk (Some w) \<Longrightarrow> w = v \<or> supersedes v w"
    and writer: "up (current_addr E\<^sub>w)" "at (current_addr E\<^sub>w) = (E\<^sub>w', S\<^sub>w', sv')"
      "cluster_secret E\<^sub>w' = cluster_secret E\<^sub>r" "current_addr E\<^sub>r \<noteq> current_addr E\<^sub>w"
    and view: "fmlookup (nodes (state sv\<^sub>r)) (current_addr E\<^sub>w) = Some info" "status info = Active"
      "collision_free (default_hash E\<^sub>r) (get_active_nodes (iter_order E\<^sub>r) (nodes (state sv\<^sub>r)))"
    and local: "\<And>w. store_get t k (store (state sv\<^sub>r)) = Some w \<Longrightarrow> w = v \<or> supersedes v w"
  shows "fst (serve W E\<^sub>r S\<^sub>r get sv\<^sub>r) = Reply (respond 200 (RecordJson v))"
proof -
  let ?a = "current_addr E\<^sub>w" and ?nd = "state sv\<^sub>r"
  have stored: "store_get t k (store (state sv')) = Some v"
    by (rule put_served [OF framework(1,2) names(1,2) written])
  have "ask W C parse E\<^sub>r t k ?a (E\<^sub>w', S\<^sub>w', sv') = FetchOk (Some v)"
    using ask_answer [OF framework(1,2) names(4) framework(3) names(1-3), of E\<^sub>w' S\<^sub>w' sv'] writer(3) stored
    by (simp only: refl if_True)
  then have answer: "fetched S\<^sub>r ?a = FetchOk (Some v)"
    using asked(1) [OF writer(1)] writer(2) by (simp only:)
  have "?a \<in> set (replication_targets E\<^sub>r k ?nd)"
    using view(1,2) by (subst replication_targets_full [OF view(3)]) blast
  with answer writer(4) have "(?a, Some v) \<in> set (replica_responses E\<^sub>r (fetched S\<^sub>r) t k ?nd)"
    by (subst mem_replica_responses) (simp only: if_False simp_thms not_sym)
  then have "v \<in> set (replica_versions E\<^sub>r (fetched S\<^sub>r) t k ?nd)"
    by (subst replica_versions_responses) (rule exI)
  moreover have "\<forall>w \<in> set (replica_versions E\<^sub>r (fetched S\<^sub>r) t k ?nd). w \<noteq> v \<longrightarrow> supersedes v w"
  proof (intro ballI impI)
    fix w
    assume "w \<in> set (replica_versions E\<^sub>r (fetched S\<^sub>r) t k ?nd)" and "w \<noteq> v"
    then obtain q where "(q, Some w) \<in> set (replica_responses E\<^sub>r (fetched S\<^sub>r) t k ?nd)"
      by (auto simp: replica_versions_responses)
    then have "store_get t k (store ?nd) = Some w \<or> fetched S\<^sub>r q = FetchOk (Some w)"
      by (auto simp: mem_replica_responses split: if_splits)
    with asked(2) local \<open>w \<noteq> v\<close> show "supersedes v w"
      by blast
  qed
  ultimately have "max_by cmp_versions (replica_versions E\<^sub>r (fetched S\<^sub>r) t k ?nd) = Some v"
    by (rule max_by_dominant)
  then have "fst (get_value E\<^sub>r (fetched S\<^sub>r) (headers get) (t, k) ?nd) = respond 200 (RecordJson v)"
    by (simp add: get_value_external [OF read(3,4)])
  then show ?thesis
    by (simp add: get_served [OF framework(1,2) names(1,2) read(1,2)])
qed

definition sample_parse :: "'v body \<Rightarrow> 'v versioned_value option option" where
  "sample_parse b = (case b of MaybeRecordJson x \<Rightarrow> Some x | _ \<Rightarrow> None)"

lemma sample_parse_reads: "reads_optional sample_parse"
  by (simp add: reads_optional_def sample_parse_def)

theorem write_read_elsewhere_witness:
  "let W = sample_web; E\<^sub>w = sample_env ''n1'' 9; E\<^sub>r = sample_env ''n2'' 10;
       sv = server_new (sample_node\<lparr>store := fmempty\<rparr>);
       sv' = fst (snd (serve W E\<^sub>w sample_surroundings (sample_request PUT ''/t/key/k'' (bearer ''Ualice'') ''fx'') sv));
       answers = (\<lambda>q. if q = ''n1'' then ask W sample_client sample_parse E\<^sub>r ''t'' ''k'' q (E\<^sub>w, sample_surroundings, sv')
                  else FetchFailed)
   in fst (serve W E\<^sub>r (sample_surroundings\<lparr>fetched := answers\<rparr>)
        (sample_request GET ''/t/key/k'' (bearer ''Ualice'') []) sv) =
      Reply (respond 200 (RecordJson (vv_new 9 (fmupd ''f'' ''x'' fmempty) ''alice'' ''n1'')))"
proof -
  let ?W = sample_web and ?Ew = "sample_env ''n1'' 9" and ?Er = "sample_env ''n2'' 10"
  let ?S = "sample_surroundings" and ?sv = "server_new (sample_node\<lparr>store := fmempty\<rparr>)"
  let ?put = "sample_request PUT ''/t/key/k'' (bearer ''Ualice'') ''fx''"
  let ?get = "sample_request GET ''/t/key/k'' (bearer ''Ualice'') []"
  define v where "v = vv_new 9 (fmupd ''f'' ''x'' fmempty) ''alice'' ''n1''"
  define sv' where "sv' = fst (snd (serve ?W ?Ew ?S ?put ?sv))"
  define answers where "answers q = (if q = ''n1'' then ask ?W sample_client sample_parse ?Er ''t'' ''k'' q (?Ew, ?S, sv')
    else FetchFailed)" for q
  have "case fst (serve ?W ?Ew ?S ?put ?sv) of Reply r \<Rightarrow> r = respond 201 (RecordJson v) | _ \<Rightarrow> False"
    unfolding v_def by code_simp
  then have reply: "fst (serve ?W ?Ew ?S ?put ?sv) = Reply (respond 201 (RecordJson v))"
    by (simp split: http_reply.splits)
  have run: "serve ?W ?Ew ?S ?put ?sv = (Reply (respond 201 (RecordJson v)), sv', snd (snd (serve ?W ?Ew ?S ?put ?sv)))"
    unfolding sv'_def reply [symmetric] by simp
  have env: "current_addr ?Ew = ''n1''" "current_addr ?Er = ''n2''" "cluster_secret ?Ew = cluster_secret ?Er"
    and secret_text: "header_text (cluster_secret ?Er)"
    and ext: "\<not> internal_request ?Er (headers ?get)"
      "extract_user_from_token ?Er (headers ?get) = Inr (owner v)"
    and fields: "json_fields ?W (headers ?put) (content ?put) = Some (fmupd ''f'' ''x'' fmempty)"
    and ring: "collision_free (default_hash ?Er) (get_active_nodes (iter_order ?Er) (nodes (state ?sv)))"
    unfolding v_def by code_simp+
  have path: "req_method ?put = PUT" "req_path ?put = join_path [''t'', ''key'', ''k'']"
    "req_method ?get = GET" "req_path ?get = join_path [''t'', ''key'', ''k'']"
    by (simp_all add: sample_request_def)
  have names: "plain ''t''" "plain ''k''"
    by (simp_all add: plain_def plain_char_def)
  have parse: "reads_optional sample_parse"
    by (rule sample_parse_reads)
  have urls: "plain_urls sample_client (''http://'' @ current_addr ?Ew)"
    unfolding env by (rule sample_client_plain) simp
  have stored: "store_get ''t'' ''k'' (store (state sv')) = Some v"
    by (rule put_served [OF sample_web_first_match sample_web_plain names path(1,2) run fields])
  have answered: "w = v" if "answers q = FetchOk (Some w)" for q w
    using that ask_answer [OF sample_web_first_match sample_web_plain urls [unfolded env] parse names secret_text, of ?Ew ?S sv'] stored env(3)
    by (simp add: answers_def split: if_splits)
  have view: "fmlookup (nodes (state ?sv)) (current_addr ?Ew) = Some \<lparr>status = Active, last_heartbeat = 1\<rparr>"
    unfolding env by (simp add: server_new_def sample_node_def)
  have "fst (serve ?W ?Er (?S\<lparr>fetched := answers\<rparr>) ?get ?sv) = Reply (respond 200 (RecordJson v))"
  proof (rule write_read_elsewhere [OF sample_web_first_match sample_web_plain parse names secret_text urls path(1,2) run fields
        path(3,4) ext, where up = "\<lambda>q. q = ''n1''" and at = "\<lambda>_. (?Ew, ?S, sv')" and E\<^sub>w' = ?Ew and S\<^sub>w' = ?S])
    show "fetched (?S\<lparr>fetched := answers\<rparr>) q = ask ?W sample_client sample_parse ?Er ''t'' ''k'' q (?Ew, ?S, sv')"
      if "q = ''n1''" for q
      using that by (simp add: answers_def)
  qed (use answered env view ring in \<open>auto simp: server_new_def store_get_def\<close>)
  then show ?thesis
    unfolding Let_def v_def [symmetric] sv'_def [symmetric] answers_def [abs_def] .
qed

end
