(* ===== verification/Replication.thy ===== *)
theory Replication
  imports Fetching
begin

text \<open>
  The whole cluster: nodes that serve client writes and reads of any keys, with the replication
  and read-repair messages in flight between them, which arrive in any order, any number of
  times, or not yet. The theory shows where stored versions come from, and that a cluster in
  which every message has arrived agrees on every key.
\<close>

section \<open>The cluster as a transition system\<close>

text \<open>
  The nodes, every message sent so far, every message delivered so far, the answers nodes gave
  each other's reads, each with the node, the table and the key, and the versions
  clients were answered with, each with the node that answered, the table and the key. A
  message that was sent may be delivered at any later time and repeatedly, as the retries of
  the sending task can cause. Deletes are left out: they are no register operation.
\<close>

record ('v, 'c) replication =
  replica :: "string \<Rightarrow> ('v, 'c) node"
  sent :: "'v outgoing list"
  arrived :: "'v outgoing list"
  answers :: "(string \<times> string \<times> string \<times> 'v response) list"
  accepted :: "(string \<times> string \<times> string \<times> 'v versioned_value) list"

definition accepted_versions :: "('v, 'c) replication \<Rightarrow> string \<Rightarrow> string \<Rightarrow> 'v versioned_value set" where
  "accepted_versions c t k = {v. \<exists>p. (p, t, k, v) \<in> set (accepted c)}"

text \<open>
  The processes share the cluster secret and the hash function; clocks, iteration orders and
  requests differ from step to step. A read at one node asks others: \<open>answered\<close> is such a node
  serving the internal GET (\<open>fetch_request\<close> of \<^verbatim>\<open>Fetching\<close>) in the state it is in, and
  \<open>fetched\<close> is the reading node, for which each other node either failed or gave one of its answers.
\<close>

definition fetched_from ::
    "('v body \<Rightarrow> 'v versioned_value option option) \<Rightarrow> 'v response \<Rightarrow> 'v fetch" where
  "fetched_from parse resp = fetch_result parse (Reply resp :: ('v, unit) http_reply)"

inductive replication_step ::
    "('v body \<Rightarrow> 'v versioned_value option option) \<Rightarrow> string \<Rightarrow> (string \<Rightarrow> u64) \<Rightarrow> string list \<Rightarrow>
     ('v, 'c) replication \<Rightarrow> ('v, 'c) replication \<Rightarrow> bool"
  for parse :: "'v body \<Rightarrow> 'v versioned_value option option"
    and secret :: string and hash :: "string \<Rightarrow> u64" and ms :: "string list" where
  written: "p \<in> set ms \<Longrightarrow> current_addr E = p \<Longrightarrow> cluster_secret E = secret \<Longrightarrow> default_hash E = hash \<Longrightarrow>
    serve_write E req (t, k) w (replica c p) = (resp, nd', out) \<Longrightarrow>
    replication_step parse secret hash ms c
      (c\<lparr>replica := (replica c)(p := nd'), sent := sent c @ out,
         accepted := accepted c @ map (\<lambda>v. (p, t, k, v)) (written_version resp)\<rparr>)"
| answered: "current_addr E = q \<Longrightarrow> cluster_secret E = secret \<Longrightarrow>
    get_value E remote (fmupd ''X-Internal-Request'' (header_of secret) fmempty) (t, k) (replica c q) = (resp, nd', out) \<Longrightarrow>
    replication_step parse secret hash ms c
      (c\<lparr>replica := (replica c)(q := nd'), sent := sent c @ out, answers := answers c @ [(q, t, k, resp)]\<rparr>)"
| fetched: "p \<in> set ms \<Longrightarrow> current_addr E = p \<Longrightarrow> cluster_secret E = secret \<Longrightarrow>
    (\<And>q x. remote q = FetchOk x \<Longrightarrow> \<exists>resp. (q, t, k, resp) \<in> set (answers c) \<and> fetched_from parse resp = FetchOk x) \<Longrightarrow>
    get_value E remote req (t, k) (replica c p) = (resp, nd', out) \<Longrightarrow>
    replication_step parse secret hash ms c
      (c\<lparr>replica := (replica c)(p := nd'), sent := sent c @ out\<rparr>)"
| delivered: "msg \<in> set (sent c) \<Longrightarrow> msg = PutInternal q t k v s n \<Longrightarrow>
    current_addr E = q \<Longrightarrow> cluster_secret E = secret \<Longrightarrow>
    replication_step parse secret hash ms c
      (c\<lparr>replica := (replica c)(q := deliver_put E s t k v (replica c q)), arrived := arrived c @ [msg]\<rparr>)"

abbreviation replication_run ::
    "('v body \<Rightarrow> 'v versioned_value option option) \<Rightarrow> string \<Rightarrow> (string \<Rightarrow> u64) \<Rightarrow> string list \<Rightarrow>
     ('v, 'c) replication \<Rightarrow> ('v, 'c) replication \<Rightarrow> bool" where
  "replication_run parse secret hash ms \<equiv> (replication_step parse secret hash ms)\<^sup>*\<^sup>*"

text \<open>
  A fresh cluster: no records and no messages, and every member lists exactly the members as
  active.
\<close>

definition fresh_replication :: "(string \<Rightarrow> u64) \<Rightarrow> string list \<Rightarrow> ('v, 'c) replication \<Rightarrow> bool" where
  "fresh_replication hash ms c \<longleftrightarrow>
     sent c = [] \<and> arrived c = [] \<and> answers c = [] \<and> accepted c = [] \<and> collision_free hash ms \<and>
     (\<forall>p t k. store_get t k (store (replica c p)) = None) \<and>
     (\<forall>p \<in> set ms. set (get_active_nodes sorted_order (nodes (replica c p))) = set ms)"

text \<open>Every message that was sent has been delivered at least once.\<close>

definition quiescent :: "('v, 'c) replication \<Rightarrow> bool" where
  "quiescent c \<longleftrightarrow> set (sent c) \<subseteq> set (arrived c)"

text \<open>No counter has reached the end of its range.\<close>

definition counters_free :: "('v, 'c) replication \<Rightarrow> bool" where
  "counters_free c \<longleftrightarrow> (\<forall>(p, t, k, v) \<in> set (accepted c). \<forall>n. clk v n \<noteq> u64_max)"

section \<open>Lemmas on the steps\<close>

lemma serve_write_other:
  assumes "serve_write E req (t, k) w nd = (resp, nd', out)" and "(t', k') \<noteq> (t, k)"
  shows "store_get t' k' (store nd') = store_get t' k' (store nd)"
  using assms
  by (cases w) (auto simp: put_value_store patch_value_store split: sum.splits)

lemma serve_write_nodes:
  "serve_write E req path w nd = (resp, nd', out) \<Longrightarrow> nodes nd' = nodes nd"
  by (cases w) (auto simp: put_value_def patch_value_def Let_def split: prod.splits sum.splits option.splits if_splits)

lemma get_value_nodes: "get_value E remote req path nd = (resp, nd', out) \<Longrightarrow> nd' = nd"
  using get_value_pure [of E remote req path nd] by simp

lemma serve_write_rejected_sends:
  "serve_write E req (t, k) w nd = (resp, nd', out) \<Longrightarrow> written_version resp = [] \<Longrightarrow> out = []"
  by (cases w)
    (auto simp: put_value_def patch_value_def written_version_def Let_def split: sum.splits option.splits if_splits)

lemma serve_write_sends:
  assumes "serve_write E req (t, k) w nd = (resp, nd', out)" and "written_version resp = [v]"
  shows "set out \<subseteq> (\<lambda>q. PutInternal q t k v (cluster_secret E) 3) ` UNIV"
    and "q \<in> set (replication_targets E k nd) \<Longrightarrow> q \<noteq> current_addr E \<Longrightarrow>
      PutInternal q t k v (cluster_secret E) 3 \<in> set out"
proof -
  have err: "extract_user_from_token E req = Inl r \<Longrightarrow> written_version r = []" for r
    by (auto simp: extract_user_from_token_def written_version_def split: option.splits)
  have "\<exists>nd2. nodes nd2 = nodes nd \<and>
      (out = replicate_put E t k v (replication_targets E k nd2) \<or>
       out = replicate_put E t k v (filter (\<lambda>tgt. tgt \<noteq> current_addr E) (replication_targets E k nd2)))"
  proof (cases w)
    case (Put val)
    with assms err show ?thesis
      by (auto simp: put_value_def written_version_def Let_def split: sum.splits option.splits if_splits
          intro!: exI [where x = "commit_write E t k v (nd\<lparr>store := touch_table t (store nd)\<rparr>)"])
  next
    case (Patch upd)
    with assms err show ?thesis
      by (auto simp: patch_value_def written_version_def Let_def split: sum.splits option.splits if_splits
          intro!: exI [where x = "commit_write E t k v (nd\<lparr>store := touch_table t (store nd)\<rparr>)"])
  qed
  then have out: "out = replicate_put E t k v (replication_targets E k nd) \<or>
      out = replicate_put E t k v (filter (\<lambda>tgt. tgt \<noteq> current_addr E) (replication_targets E k nd))"
    using replication_targets_nodes by metis
  then show "set out \<subseteq> (\<lambda>q. PutInternal q t k v (cluster_secret E) 3) ` UNIV"
    by (auto simp: replicate_put_def)
  show "q \<in> set (replication_targets E k nd) \<Longrightarrow> q \<noteq> current_addr E \<Longrightarrow>
      PutInternal q t k v (cluster_secret E) 3 \<in> set out"
    using out by (auto simp: replicate_put_def)
qed

lemma written_version_cases: "written_version resp = [] \<or> (\<exists>v. written_version resp = [v])"
  by (cases "body resp") (auto simp: written_version_def)

section \<open>Provenance\<close>

text \<open>Every stored version, and every version on its way, was accepted from a client before.\<close>

definition provenance ::
    "('v body \<Rightarrow> 'v versioned_value option option) \<Rightarrow> string \<Rightarrow> ('v, 'c) replication \<Rightarrow> bool" where
  "provenance parse secret c \<longleftrightarrow>
     (\<forall>p t k v. store_get t k (store (replica c p)) = Some v \<longrightarrow> v \<in> accepted_versions c t k) \<and>
     (\<forall>(q, t, k, resp) \<in> set (answers c). \<forall>v. fetched_from parse resp = FetchOk (Some v) \<longrightarrow>
        v \<in> accepted_versions c t k) \<and>
     (\<forall>x \<in> set (sent c). \<exists>q t k v n. x = PutInternal q t k v secret n \<and> v \<in> accepted_versions c t k) \<and>
     set (arrived c) \<subseteq> set (sent c)"

lemma accepted_versions_append:
  "accepted c' = accepted c @ map (\<lambda>v. (p, t, k, v)) vs \<Longrightarrow>
   accepted_versions c' t' k' = accepted_versions c t' k' \<union> (if (t', k') = (t, k) then set vs else {})"
  by (auto simp: accepted_versions_def)

lemma serve_write_result:
  assumes "serve_write E req (t, k) w nd = (resp, nd', out)"
  shows "written_version resp = [] \<and> store_get t k (store nd') = store_get t k (store nd) \<or>
    (\<exists>v. written_version resp = [v] \<and> store_get t k (store nd') = Some v)"
proof (cases "extract_user_from_token E req")
  case (Inl r)
  from Inl have "\<exists>e. r = respond 401 (ErrorJson e)"
    by (auto simp: extract_user_from_token_def split: option.splits)
  with assms Inl show ?thesis
    by (cases w) (auto simp: put_value_def patch_value_def written_version_def)
next
  case (Inr user)
  with assms show ?thesis
    by (cases w; cases "store_get t k (store nd)")
      (auto simp: put_value_def patch_value_def written_version_def Let_def store_simps split: if_splits)
qed

lemma serve_write_stored:
  assumes "serve_write E req (t, k) w nd = (resp, nd', out)"
    and "store_get t' k' (store nd') = Some v"
  shows "store_get t' k' (store nd) = Some v \<or> (t', k') = (t, k) \<and> written_version resp = [v]"
  using serve_write_result [OF assms(1)] serve_write_other [OF assms(1), of t' k'] assms(2) by fastforce

lemma accepted_versions_cong: "accepted c' = accepted c \<Longrightarrow> accepted_versions c' = accepted_versions c"
  by (simp add: accepted_versions_def fun_eq_iff)

lemma provenanceI:
  assumes "\<And>p t k v. store_get t k (store (replica c p)) = Some v \<Longrightarrow> v \<in> accepted_versions c t k"
    and "\<And>q t k resp v. (q, t, k, resp) \<in> set (answers c) \<Longrightarrow> fetched_from parse resp = FetchOk (Some v) \<Longrightarrow>
      v \<in> accepted_versions c t k"
    and "\<And>x. x \<in> set (sent c) \<Longrightarrow> \<exists>q t k v n. x = PutInternal q t k v secret n \<and> v \<in> accepted_versions c t k"
    and "set (arrived c) \<subseteq> set (sent c)"
  shows "provenance parse secret c"
  using assms unfolding provenance_def by blast

lemma provenanceD:
  assumes "provenance parse secret c"
  shows "store_get t k (store (replica c p)) = Some v \<Longrightarrow> v \<in> accepted_versions c t k"
    and "(q, t, k, resp) \<in> set (answers c) \<Longrightarrow> fetched_from parse resp = FetchOk (Some v) \<Longrightarrow>
      v \<in> accepted_versions c t k"
    and "x \<in> set (sent c) \<Longrightarrow> \<exists>q t k v n. x = PutInternal q t k v secret n \<and> v \<in> accepted_versions c t k"
    and "x \<in> set (arrived c) \<Longrightarrow> x \<in> set (sent c)"
  using assms unfolding provenance_def by blast+

text \<open>The internal GET answers with the node's own record, or with 401.\<close>

lemma internal_get_answer:
  assumes "get_value E remote (fmupd ''X-Internal-Request'' h fmempty) (t, k) nd = (resp, nd', out)"
    and "reads_optional parse" and "fetched_from parse resp = FetchOk (Some v)"
  shows "store_get t k (store nd) = Some v"
proof (cases "internal_request E (fmupd ''X-Internal-Request'' h fmempty)")
  case True
  with assms show ?thesis
    by (auto simp: get_value_def fetched_from_def fetch_result_def is_success_def reads_optional_def)
next
  case False
  with assms(1) have "resp = respond 401 (Text ''You are not owning this record'')"
    by (auto simp: get_value_def extract_user_from_token_def)
  with assms(3) show ?thesis
    by (simp add: fetched_from_def fetch_result_def is_success_def)
qed

lemma internal_get_effects:
  assumes "get_value E remote (fmupd ''X-Internal-Request'' h fmempty) (t, k) nd = (resp, nd', out)"
  shows "nd' = nd" and "out = []"
  using assms
  by (auto simp: get_value_def extract_user_from_token_def split: if_splits)

lemma provenance_step:
  assumes "replication_step parse secret hash ms c d" and "provenance parse secret c" and "reads_optional parse"
  shows "provenance parse secret d"
  using assms(1)
proof cases
  case (written p E req t k w resp nd' out)
  then have d: "replica d = (replica c)(p := nd')" "sent d = sent c @ out" "arrived d = arrived c" "answers d = answers c"
    "accepted d = accepted c @ map (\<lambda>v. (p, t, k, v)) (written_version resp)"
    by simp_all
  have acc: "accepted_versions d t' k' =
      accepted_versions c t' k' \<union> (if (t', k') = (t, k) then set (written_version resp) else {})" for t' k'
    by (rule accepted_versions_append [OF d(5)])
  show ?thesis
  proof (rule provenanceI)
    fix p' t' k' v
    assume "store_get t' k' (store (replica d p')) = Some v"
    then show "v \<in> accepted_versions d t' k'"
      using provenanceD(1) [OF assms(2), of t' k'] serve_write_stored [OF written(6), of t' k' v]
      by (auto simp: d(1) acc split: if_splits)
  next
    fix x
    assume "x \<in> set (sent d)"
    then consider "x \<in> set (sent c)" | v where "x \<in> set out" "written_version resp = [v]"
      using serve_write_rejected_sends [OF written(6)] written_version_cases [of resp] by (auto simp: d(2))
    then show "\<exists>q t k v n. x = PutInternal q t k v secret n \<and> v \<in> accepted_versions d t k"
    proof cases
      case 1
      with provenanceD(3) [OF assms(2)] show ?thesis
        unfolding acc by blast
    next
      case 2
      from serve_write_sends(1) [OF written(6) 2(2)] 2 written(4) acc [of t k] show ?thesis
        by auto
    qed
  next
    show "set (arrived d) \<subseteq> set (sent d)"
      using provenanceD(4) [OF assms(2)] by (auto simp: d(2,3))
  qed (use provenanceD(2) [OF assms(2)] in \<open>simp add: d(4) acc\<close>)
next
  case (answered E q remote t k resp nd' out)
  note same = internal_get_effects [OF answered(4)]
  have acc: "accepted_versions d = accepted_versions c"
    by (rule accepted_versions_cong) (simp add: answered(1))
  show ?thesis
  proof (rule provenanceI)
    fix q' t' k' r v
    assume r: "(q', t', k', r) \<in> set (answers d)" "fetched_from parse r = FetchOk (Some v)"
    show "v \<in> accepted_versions d t' k'"
    proof (cases "(q', t', k', r) \<in> set (answers c)")
      case True
      with r(2) provenanceD(2) [OF assms(2)] show ?thesis
        unfolding acc by blast
    next
      case False
      with r(1) have "t' = t" "k' = k" "r = resp"
        by (simp_all add: answered(1))
      with internal_get_answer [OF answered(4) assms(3)] r(2) provenanceD(1) [OF assms(2)] show ?thesis
        unfolding acc by blast
    qed
  qed (use provenanceD [OF assms(2)] same in \<open>auto simp: acc, auto simp: answered(1) split: if_splits\<close>)
next
  case (fetched p E remote t k req resp nd' out)
  have acc: "accepted_versions d = accepted_versions c"
    by (rule accepted_versions_cong) (simp add: fetched(1))
  have nd': "nd' = replica c p"
    using get_value_pure [of E remote req "(t, k)" "replica c p"] fetched(6) by simp
  have repair: "\<exists>q t k v n. x = PutInternal q t k v secret n \<and> v \<in> accepted_versions c t k" if "x \<in> set out" for x
  proof -
    from that fetched(6) obtain a v where x: "x = PutInternal a t k v (cluster_secret E) 1"
      and "v \<in> set (replica_versions E remote t k (replica c p))"
      using get_value_repairs [of x E remote req t k "replica c p"] by auto
    then obtain b where "(b, Some v) \<in> set (replica_responses E remote t k (replica c p))"
      by (auto simp: replica_versions_responses)
    then have "store_get t k (store (replica c p)) = Some v \<or> remote b = FetchOk (Some v)"
      by (auto simp: mem_replica_responses split: if_splits)
    then have "v \<in> accepted_versions c t k"
      using fetched(5) [of b "Some v"] provenanceD(1,2) [OF assms(2)] by blast
    with x fetched(4) show ?thesis
      by blast
  qed
  show ?thesis
    by (rule provenanceI) (use provenanceD [OF assms(2)] repair nd' in \<open>auto simp: acc, auto simp: fetched(1) split: if_splits\<close>)
next
  case (delivered msg q t k v s n E)
  have acc: "accepted_versions d = accepted_versions c"
    by (rule accepted_versions_cong) (simp add: delivered(1))
  have v: "v \<in> accepted_versions c t k"
    using provenanceD(3) [OF assms(2) delivered(2)] delivered(3) by auto
  show ?thesis
  proof (rule provenanceI)
    fix p t' k' w
    assume "store_get t' k' (store (replica d p)) = Some w"
    then show "w \<in> accepted_versions d t' k'"
      using v provenanceD(1) [OF assms(2)] unfolding acc
      by (auto simp: delivered(1) store_get_deliver merge_cell_def merge_version_def split: if_splits option.splits)
  qed (use provenanceD(2-4) [OF assms(2)] delivered(2) in \<open>auto simp: acc, auto simp: delivered(1)\<close>)
qed

lemma provenance_run:
  assumes "replication_run parse secret hash ms c d" and "fresh_replication hash ms c" and "reads_optional parse"
  shows "provenance parse secret d"
  using assms
proof (induction rule: rtranclp_induct)
  case base
  then show ?case
    by (simp add: fresh_replication_def provenance_def)
qed (use provenance_step in blast)

section \<open>What a replica holds\<close>

text \<open>
  The versions of a key a node has dealt with, and the cell as the merge of exactly these.
\<close>

definition seen_at :: "('v, 'c) replication \<Rightarrow> string \<Rightarrow> string \<Rightarrow> string \<Rightarrow> 'v versioned_value set" where
  "seen_at c p t k =
     {v. (p, t, k, v) \<in> set (accepted c) \<or> (\<exists>s n. PutInternal p t k v s n \<in> set (arrived c))}"

definition merged_from :: "'v versioned_value set \<Rightarrow> 'v versioned_value option \<Rightarrow> bool" where
  "merged_from S cell \<longleftrightarrow> (\<exists>log. cell = foldl merge_cell None log \<and> set log = S)"

lemma merged_from_empty [simp]: "merged_from {} None"
  by (simp add: merged_from_def)

lemma merged_from_insert: "merged_from S cell \<Longrightarrow> merged_from (insert v S) (merge_cell cell v)"
  unfolding merged_from_def
proof (elim exE conjE)
  fix log
  assume "cell = foldl merge_cell None log" and "set log = S"
  then have "merge_cell cell v = foldl merge_cell None (log @ [v])" and "set (log @ [v]) = insert v S"
    by simp_all
  then show "\<exists>log. merge_cell cell v = foldl merge_cell None log \<and> set log = insert v S"
    by blast
qed

definition replicas_merged :: "('v, 'c) replication \<Rightarrow> bool" where
  "replicas_merged c \<longleftrightarrow> (\<forall>p t k. merged_from (seen_at c p t k) (store_get t k (store (replica c p))))"

text \<open>A write replaces what the node held by the merge of it and the new version.\<close>

lemma serve_write_merges:
  assumes "serve_write E req (t, k) w nd = (resp, nd', out)" and "written_version resp = [v]"
    and "\<And>old. store_get t k (store nd) = Some old \<Longrightarrow> clk old (current_addr E) \<noteq> u64_max"
  shows "store_get t k (store nd') = merge_cell (store_get t k (store nd)) v"
  using serve_write_step [OF assms(1,3)] assms(2)
  by (auto simp: merge_cell_def merge_dominated split: option.splits)

lemma replicas_merged_step:
  assumes "replication_step parse secret hash ms c d" and "replicas_merged c" and "provenance parse secret c"
    and "counters_free d"
  shows "replicas_merged d"
  using assms(1)
proof cases
  case (written p E req t k w resp nd' out)
  then have d: "replica d = (replica c)(p := nd')" "arrived d = arrived c"
    "accepted d = accepted c @ map (\<lambda>v. (p, t, k, v)) (written_version resp)"
    by simp_all
  have free: "clk old (current_addr E) \<noteq> u64_max" if "store_get t k (store (replica c p)) = Some old" for old
    using that assms(3,4) d(3) by (fastforce simp: provenance_def counters_free_def accepted_versions_def)
  have seen: "seen_at d p' t' k' =
      seen_at c p' t' k' \<union> (if (p', t', k') = (p, t, k) then set (written_version resp) else {})" for p' t' k'
    by (auto simp: seen_at_def d)
  have merged: "merged_from (seen_at c p' t' k') (store_get t' k' (store (replica c p')))" for p' t' k'
    using assms(2) by (simp add: replicas_merged_def)
  have "merged_from (seen_at d p' t' k') (store_get t' k' (store (replica d p')))" for p' t' k'
  proof (cases "(p', t', k') = (p, t, k)")
    case True
    from written_version_cases [of resp] show ?thesis
    proof
      assume "written_version resp = []"
      with serve_write_result [OF written(6)] True merged [of p t k] show ?thesis
        by (auto simp: d(1) seen)
    next
      assume "\<exists>v. written_version resp = [v]"
      then obtain v where v: "written_version resp = [v]" ..
      with serve_write_merges [OF written(6) v free] True merged_from_insert [OF merged [of p t k], of v]
      show ?thesis
        by (auto simp: d(1) seen)
    qed
  next
    case False
    with merged [of p' t' k'] serve_write_other [OF written(6), of t' k'] show ?thesis
      by (auto simp: d(1) seen)
  qed
  then show ?thesis
    by (simp add: replicas_merged_def)
next
  case (answered E q remote t k resp nd' out)
  with internal_get_effects [OF answered(4)] assms(2) show ?thesis
    by (auto simp: replicas_merged_def seen_at_def)
next
  case (fetched p E remote t k req resp nd' out)
  then have "nd' = replica c p"
    using get_value_pure [of E remote req "(t, k)" "replica c p"] by simp
  with fetched(1) assms(2) show ?thesis
    by (auto simp: replicas_merged_def seen_at_def)
next
  case (delivered msg q t k v s n E)
  have "s = cluster_secret E"
    using assms(3) delivered(2,3,5) by (auto simp: provenance_def)
  moreover have "seen_at d p' t' k' = (if (p', t', k') = (q, t, k) then insert v (seen_at c p' t' k') else seen_at c p' t' k')" for p' t' k'
    by (auto simp: seen_at_def delivered(1,3))
  ultimately show ?thesis
    using assms(2) merged_from_insert [of "seen_at c q t k" "store_get t k (store (replica c q))" v]
    by (auto simp: delivered(1) replicas_merged_def store_get_deliver)
qed

section \<open>Messages reach every member\<close>

definition all_told :: "string \<Rightarrow> string list \<Rightarrow> ('v, 'c) replication \<Rightarrow> bool" where
  "all_told secret ms c \<longleftrightarrow>
     (\<forall>(p, t, k, v) \<in> set (accepted c). \<forall>q \<in> set ms. q \<noteq> p \<longrightarrow> (\<exists>n. PutInternal q t k v secret n \<in> set (sent c)))"

definition full_view :: "(string \<Rightarrow> u64) \<Rightarrow> string list \<Rightarrow> ('v, 'c) replication \<Rightarrow> bool" where
  "full_view hash ms c \<longleftrightarrow> collision_free hash ms \<and>
     (\<forall>p \<in> set ms. set (get_active_nodes sorted_order (nodes (replica c p))) = set ms)"

lemma full_view_targets:
  assumes "full_view hash ms c" and "p \<in> set ms" and "default_hash E = hash"
  shows "set (replication_targets E k (replica c p)) = set ms"
proof -
  have act: "set (get_active_nodes (iter_order E) (nodes (replica c p))) = set ms"
    using assms(1,2) by (auto simp: full_view_def set_get_active_nodes)
  have "collision_free (default_hash E) (get_active_nodes (iter_order E) (nodes (replica c p)))"
    using assms(1,3) collision_free_cong [OF act] by (simp add: full_view_def)
  from replication_targets_full [OF this] act show ?thesis
    by (simp add: set_get_active_nodes)
qed

lemma deliver_put_nodes [simp]: "nodes (deliver_put E s t k v nd) = nodes nd"
  by (simp add: deliver_put_def put_value_internal_def Let_def)

lemma full_view_step:
  "replication_step parse secret hash ms c d \<Longrightarrow> full_view hash ms c \<Longrightarrow> full_view hash ms d"
  by (induction rule: replication_step.induct)
    (auto simp: full_view_def dest!: serve_write_nodes get_value_nodes)

lemma all_told_step:
  assumes "replication_step parse secret hash ms c d" and "all_told secret ms c" and "full_view hash ms c"
  shows "all_told secret ms d"
  using assms(1)
proof cases
  case (written p E req t k w resp nd' out)
  have "\<exists>n. PutInternal q t k v secret n \<in> set out"
    if "v \<in> set (written_version resp)" "q \<in> set ms" "q \<noteq> p" for v q
  proof -
    from that(1) have "written_version resp = [v]"
      using written_version_cases [of resp] by auto
    from serve_write_sends(2) [OF written(6) this, of q] that(2,3) written(3,4)
      full_view_targets [OF assms(3) written(2,5), of k] show ?thesis
      by auto
  qed
  with assms(2) show ?thesis
    by (fastforce simp: written(1) all_told_def)
qed (use assms(2) in \<open>fastforce simp: all_told_def\<close>)+

lemma accepted_grows: "replication_step parse secret hash ms c d \<Longrightarrow> set (accepted c) \<subseteq> set (accepted d)"
  by (cases rule: replication_step.cases) auto

lemma counters_free_before:
  "replication_step parse secret hash ms c d \<Longrightarrow> counters_free d \<Longrightarrow> counters_free c"
  using accepted_grows unfolding counters_free_def by blast

lemma fresh_start:
  assumes "fresh_replication hash ms c"
  shows "replicas_merged c" and "provenance parse secret c" and "all_told secret ms c" and "full_view hash ms c"
  using assms
  by (auto simp: fresh_replication_def replicas_merged_def seen_at_def provenance_def all_told_def full_view_def)

lemma run_invariants:
  assumes "replication_run parse secret hash ms c d" and "fresh_replication hash ms c" and "counters_free d"
    and "reads_optional parse"
  shows "replicas_merged d \<and> provenance parse secret d \<and> all_told secret ms d \<and> full_view hash ms d"
  using assms
proof (induction rule: rtranclp_induct)
  case base
  with fresh_start show ?case
    by blast
next
  case (step d e)
  have inv: "replicas_merged d \<and> provenance parse secret d \<and> all_told secret ms d \<and> full_view hash ms d"
    by (rule step.IH [OF step.prems(1) counters_free_before [OF step.hyps(2) step.prems(2)] step.prems(3)])
  show ?case
    using inv replicas_merged_step [OF step.hyps(2) _ _ step.prems(2)] provenance_step [OF step.hyps(2) _ step.prems(3)]
      all_told_step [OF step.hyps(2)] full_view_step [OF step.hyps(2)]
    by simp
qed

lemma seen_when_quiescent:
  assumes "provenance parse secret d" and "all_told secret ms d" and "quiescent d" and "p \<in> set ms"
  shows "seen_at d p t k = accepted_versions d t k"
proof
  have "v \<in> accepted_versions d t k" if "PutInternal p t k v s n \<in> set (arrived d)" for v s n
  proof -
    from that assms(1) have "PutInternal p t k v s n \<in> set (sent d)"
      by (auto simp: provenance_def)
    with assms(1) show ?thesis
      unfolding provenance_def by fast
  qed
  then show "seen_at d p t k \<subseteq> accepted_versions d t k"
    by (auto simp: seen_at_def accepted_versions_def)
  have "v \<in> seen_at d p t k" if acc: "(q, t, k, v) \<in> set (accepted d)" for v q
  proof (cases "q = p")
    case False
    with acc assms(2,4) obtain n where "PutInternal p t k v secret n \<in> set (sent d)"
      unfolding all_told_def by fast
    with assms(3) show ?thesis
      by (auto simp: quiescent_def seen_at_def)
  qed (use acc in \<open>simp add: seen_at_def\<close>)
  then show "accepted_versions d t k \<subseteq> seen_at d p t k"
    by (auto simp: accepted_versions_def)
qed

text \<open>From every state, the messages in flight can be delivered.\<close>

lemma deliver_all:
  assumes "\<forall>x \<in> set xs. x \<in> set (sent d) \<and> (\<exists>q t k v n. x = PutInternal q t k v secret n)"
  shows "\<exists>e. replication_run parse secret hash ms d e \<and> sent e = sent d \<and> accepted e = accepted d \<and>
    set (arrived e) = set (arrived d) \<union> set xs"
  using assms
proof (induction xs arbitrary: d)
  case (Cons x xs)
  obtain q t k v n where x: "x = PutInternal q t k v secret n" "x \<in> set (sent d)"
    using Cons.prems unfolding list.set by blast
  define E :: "('a, 'b) env" where "E = undefined\<lparr>current_addr := q, var_cluster_secret := Some secret\<rparr>"
  let ?d = "d\<lparr>replica := (replica d)(q := deliver_put E secret t k v (replica d q)), arrived := arrived d @ [x]\<rparr>"
  have step: "replication_step parse secret hash ms d ?d"
    by (rule replication_step.delivered [OF x(2,1)]) (simp_all add: E_def cluster_secret_def)
  have "\<forall>y \<in> set xs. y \<in> set (sent ?d) \<and> (\<exists>q t k v n. y = PutInternal q t k v secret n)"
    using Cons.prems by simp
  from Cons.IH [OF this] obtain e where e: "replication_run parse secret hash ms ?d e" "sent e = sent d"
    "accepted e = accepted d" "set (arrived e) = set (arrived ?d) \<union> set xs"
    by (elim exE conjE) simp
  have "set (arrived e) = set (arrived d) \<union> set (x # xs)"
    unfolding e(4) by auto
  with e(2,3) converse_rtranclp_into_rtranclp [OF step e(1)] show ?case
    by blast
next
  case Nil
  show ?case
    by (rule exI [of _ d]) simp
qed

lemma can_settle:
  assumes "provenance parse secret d"
  shows "\<exists>e. replication_run parse secret hash ms d e \<and> quiescent e \<and> accepted e = accepted d"
proof -
  have "\<forall>x \<in> set (sent d). x \<in> set (sent d) \<and> (\<exists>q t k v n. x = PutInternal q t k v secret n)"
    using provenanceD(3) [OF assms] by fast
  from deliver_all [OF this, where parse = parse and hash = hash and ms = ms] show ?thesis
    by (auto simp: quiescent_def)
qed

section \<open>A sample run\<close>

text \<open>Two nodes; one write at the first.\<close>

definition sample_replication :: "(string, string queue_channel) replication" where
  "sample_replication =
     \<lparr>replica = (\<lambda>_. sample_node\<lparr>store := fmempty\<rparr>), sent = [], arrived = [], answers = [], accepted = []\<rparr>"

lemma sample_replication_fresh: "fresh_replication sample_hash [''n1'', ''n2''] sample_replication"
proof -
  have "collision_free sample_hash [''n1'', ''n2'']"
    by code_simp
  moreover have "set (get_active_nodes sorted_order (nodes sample_node)) = set [''n1'', ''n2'']"
    by code_simp
  ultimately show ?thesis
    by (simp add: fresh_replication_def sample_replication_def store_get_def)
qed

abbreviation sample_version :: "string versioned_value" where
  "sample_version \<equiv> vv_new 9 fmempty ''alice'' ''n1''"

text \<open>The state after the write, and the same once everything has arrived.\<close>

lemma accepted_versions_single:
  "accepted d = [(p, t, k, v)] \<Longrightarrow> accepted_versions d t k = {v}"
  by (auto simp: accepted_versions_def)

lemma sample_run:
  obtains d where "replication_run sample_parse ''cs'' sample_hash [''n1'', ''n2''] sample_replication d"
    and "quiescent d" and "accepted d = [(''n1'', ''t'', ''k'', sample_version)]"
proof -
  let ?E = "sample_env ''n1'' 9" and ?nd = "sample_node\<lparr>store := fmempty\<rparr>"
  obtain resp nd' out where put: "put_value ?E (bearer ''Ualice'') (''t'', ''k'') fmempty ?nd = (resp, nd', out)"
    by (metis prod_cases3)
  have "fst (put_value ?E (bearer ''Ualice'') (''t'', ''k'') fmempty ?nd) = respond 201 (RecordJson sample_version)"
    by code_simp
  with put have resp: "written_version resp = [sample_version]"
    by (simp add: written_version_def)
  have env: "current_addr ?E = ''n1''" "cluster_secret ?E = ''cs''" "default_hash ?E = sample_hash"
    by (simp_all add: sample_env_def cluster_secret_def)
  have run: "serve_write ?E (bearer ''Ualice'') (''t'', ''k'') (Put fmempty) (replica sample_replication ''n1'') = (resp, nd', out)"
    using put by (simp add: sample_replication_def)
  let ?d = "sample_replication\<lparr>replica := (replica sample_replication)(''n1'' := nd'), sent := sent sample_replication @ out,
      accepted := accepted sample_replication @ map (\<lambda>v. (''n1'', ''t'', ''k'', v)) (written_version resp)\<rparr>"
  have step: "replication_step sample_parse ''cs'' sample_hash [''n1'', ''n2''] sample_replication ?d"
    by (rule replication_step.written [OF _ env run]) simp
  have "accepted ?d = [(''n1'', ''t'', ''k'', sample_version)]"
    by (simp add: resp sample_replication_def)
  moreover have "provenance sample_parse ''cs'' ?d"
    by (rule provenance_run [OF _ sample_replication_fresh sample_parse_reads]) (rule r_into_rtranclp, rule step)
  then obtain e where e: "replication_run sample_parse ''cs'' sample_hash [''n1'', ''n2''] ?d e" "quiescent e" "accepted e = accepted ?d"
    using can_settle by blast
  ultimately show thesis
    using that [OF converse_rtranclp_into_rtranclp [OF step e(1)] e(2)] by simp
qed

section \<open>Properties of the cluster\<close>

text \<open>
  C4: no thin air. In a cluster that starts without records and serves clients' PUTs, PATCHes and
  GETs (no DELETE, administration or account requests), whatever the interleaving of writes, reads, answers between nodes, read
  repairs and (repeated, reordered, missing) deliveries, and whatever the clocks say: every record any node holds is, in value, owner, timestamp and
  clock, a version that some node accepted from a client for that very table and key.
\<close>

theorem stored_versions_accepted:
  assumes "fresh_replication hash ms c" and "replication_run parse secret hash ms c d" and "reads_optional parse"
    and "store_get t k (store (replica d p)) = Some v"
  shows "\<exists>q. (q, t, k, v) \<in> set (accepted d)"
  using provenance_run [OF assms(2,1,3)] assms(4) by (auto simp: provenance_def accepted_versions_def)

theorem stored_versions_accepted_witness:
  "\<exists>d q. replication_run sample_parse ''cs'' sample_hash [''n1'', ''n2''] sample_replication d \<and>
     (q, ''t'', ''k'', sample_version) \<in> set (accepted d) \<and>
     store_get ''t'' ''k'' (store (replica d ''n2'')) = Some sample_version"
proof -
  obtain d where d: "replication_run sample_parse ''cs'' sample_hash [''n1'', ''n2''] sample_replication d"
    "quiescent d" "accepted d = [(''n1'', ''t'', ''k'', sample_version)]"
    by (rule sample_run)
  have "counters_free d"
    by (simp add: counters_free_def d(3) clk_simps)
  note inv = run_invariants [OF d(1) sample_replication_fresh this sample_parse_reads]
  have "replicas_merged d" and "seen_at d ''n2'' ''t'' ''k'' = accepted_versions d ''t'' ''k''"
    using inv seen_when_quiescent [of sample_parse "''cs''" d "[''n1'', ''n2'']" "''n2''"] d(2) by simp_all
  then obtain log where log: "store_get ''t'' ''k'' (store (replica d ''n2'')) = foldl merge_cell None log"
    "set log = {sample_version}"
    unfolding replicas_merged_def merged_from_def by (metis accepted_versions_single [OF d(3)])
  have "clock_synchronous (set log)" and "log \<noteq> []"
    using log(2) by (auto simp: clock_synchronous_def)
  with lww.receive_all_winner [of log] log obtain v where
    v: "store_get ''t'' ''k'' (store (replica d ''n2'')) = Some v"
    by auto
  from stored_versions_accepted [OF sample_replication_fresh d(1) sample_parse_reads v] obtain q where
    "(q, ''t'', ''k'', v) \<in> set (accepted d)" ..
  with d v show ?thesis
    by auto
qed

text \<open>
  C1: a quiescent cluster agrees. The cluster starts without records; its membership is fixed: every
  member lists exactly the members as active, at positions of the ring that do not collide. It serves
  clients' PUTs, PATCHes and GETs (no DELETE, administration or account requests), with the replication and
  read-repair messages these cause. When every message that was sent has been delivered at
  least once, in any order and with any repetitions, all members hold the same version of a key: the one
  accepted version that supersedes all others, provided the accepted versions' timestamps
  agree with their clocks and no counter is exhausted. A key nobody wrote is absent everywhere.
\<close>

theorem quiescent_cluster_agrees:
  assumes "fresh_replication hash ms c" and "replication_run parse secret hash ms c d" and "reads_optional parse"
    and "quiescent d" and "counters_free d" and "clock_synchronous (accepted_versions d t k)"
    and "p \<in> set ms" and "q \<in> set ms"
  shows "store_get t k (store (replica d p)) = store_get t k (store (replica d q)) \<and>
    (case store_get t k (store (replica d p)) of
       None \<Rightarrow> accepted_versions d t k = {}
     | Some v \<Rightarrow> v \<in> accepted_versions d t k \<and> (\<forall>w \<in> accepted_versions d t k. w \<noteq> v \<longrightarrow> supersedes v w))"
proof -
  let ?V = "accepted_versions d t k"
  note inv = run_invariants [OF assms(2,1,5,3)]
  have merged: "merged_from ?V (store_get t k (store (replica d r)))" if "r \<in> set ms" for r
    using inv seen_when_quiescent [of parse secret d ms r t k] assms(4) that by (metis replicas_merged_def)
  obtain log where log: "store_get t k (store (replica d p)) = foldl merge_cell None log" "set log = ?V"
    using merged [OF assms(7)] by (auto simp: merged_from_def)
  obtain log' where log': "store_get t k (store (replica d q)) = foldl merge_cell None log'" "set log' = ?V"
    using merged [OF assms(8)] by (auto simp: merged_from_def)
  have same: "store_get t k (store (replica d p)) = store_get t k (store (replica d q))"
    using lww.receive_all_converges [of log log'] log log' assms(6) by simp
  show ?thesis
  proof (cases "log = []")
    case True
    with log same show ?thesis
      by simp
  next
    case False
    with lww.receive_all_winner [of log] log assms(6) obtain v
      where v: "foldl merge_cell None log = Some v" "lww.winner ?V v"
      by auto
    with log(1) have "store_get t k (store (replica d p)) = Some v"
      by simp
    then show ?thesis
      unfolding same [symmetric] using v(2) by (simp add: lww.winner_def)
  qed
qed

theorem quiescent_cluster_agrees_witness:
  "\<exists>d. replication_run sample_parse ''cs'' sample_hash [''n1'', ''n2''] sample_replication d \<and>
     store_get ''t'' ''k'' (store (replica d ''n1'')) = Some sample_version \<and>
     store_get ''t'' ''k'' (store (replica d ''n2'')) = Some sample_version"
proof -
  obtain d where d: "replication_run sample_parse ''cs'' sample_hash [''n1'', ''n2''] sample_replication d"
    "quiescent d" "accepted d = [(''n1'', ''t'', ''k'', sample_version)]"
    by (rule sample_run)
  have V: "accepted_versions d ''t'' ''k'' = {sample_version}"
    by (rule accepted_versions_single [OF d(3)])
  have "counters_free d"
    by (simp add: counters_free_def d(3) clk_simps)
  moreover have "clock_synchronous (accepted_versions d ''t'' ''k'')"
    by (simp add: V clock_synchronous_def)
  ultimately have agree:
    "store_get ''t'' ''k'' (store (replica d p)) = store_get ''t'' ''k'' (store (replica d q)) \<and>
      (case store_get ''t'' ''k'' (store (replica d p)) of
         None \<Rightarrow> accepted_versions d ''t'' ''k'' = {}
       | Some v \<Rightarrow> v \<in> accepted_versions d ''t'' ''k'' \<and>
           (\<forall>w \<in> accepted_versions d ''t'' ''k''. w \<noteq> v \<longrightarrow> supersedes v w))"
    if "p \<in> set [''n1'', ''n2'']" "q \<in> set [''n1'', ''n2'']" for p q
    using quiescent_cluster_agrees [OF sample_replication_fresh d(1) sample_parse_reads d(2) _ _ that] by blast
  have one: "store_get ''t'' ''k'' (store (replica d ''n1'')) = Some sample_version"
    using agree [of "''n1''" "''n1''"]
    by (cases "store_get ''t'' ''k'' (store (replica d ''n1''))") (simp_all add: V)
  have "store_get ''t'' ''k'' (store (replica d ''n2'')) = store_get ''t'' ''k'' (store (replica d ''n1''))"
    by (rule conjunct1 [OF agree]) simp_all
  with one d(1) show ?thesis
    by (intro exI [of _ d]) simp
qed

end
