(* ===== verification/Snapshots.thy ===== *)
theory Snapshots
  imports Persistence
begin

text \<open>
  Encrypted snapshots, \<^verbatim>\<open>storage/snapshoting.rs\<close>: the limit, the hourly round that writes a
  snapshot of the whole store, and the removal of old ones.
\<close>

section \<open>The limit\<close>

text \<open>\<^verbatim>\<open>str::parse::<usize>\<close>: an optional plus sign and decimal digits, within 64 bits.\<close>

definition digit_value :: "char \<Rightarrow> nat option" where
  "digit_value c = (let n = of_char c :: nat in if 48 \<le> n \<and> n \<le> 57 then Some (n - 48) else None)"

fun parse_digits :: "nat \<Rightarrow> string \<Rightarrow> nat option" where
  "parse_digits acc [] = Some acc"
| "parse_digits acc (c # s) =
     (case digit_value c of
        None \<Rightarrow> None
      | Some d \<Rightarrow> if acc * 10 + d < 2 ^ 64 then parse_digits (acc * 10 + d) s else None)"

definition parse_usize :: "string \<Rightarrow> nat option" where
  "parse_usize s =
     (let digits = (case s of c # r \<Rightarrow> if c = CHR ''+'' then r else s | [] \<Rightarrow> s)
      in if digits = [] then None else parse_digits 0 digits)"

definition snap_limit :: "string option \<Rightarrow> nat" where
  "snap_limit var = (case Option.bind var parse_usize of Some n \<Rightarrow> n | None \<Rightarrow> 100)"

section \<open>The directory\<close>

text \<open>
  The files of the snapshot directory: the modification time, if the file system gives one,
  and the contents.
\<close>

record snap_file =
  modified :: "nat option"
  contents :: string

type_synonym snap_dir = "(string, snap_file) fmap"

definition is_snapshot :: "string \<Rightarrow> bool" where
  "is_snapshot name \<longleftrightarrow> starts_with ''snapshot_'' name \<and> ends_with ''.json.enc'' name"

fun collect_snapshots :: "(string \<times> snap_file) list \<Rightarrow> (nat \<times> string) list" where
  "collect_snapshots [] = []"
| "collect_snapshots ((name, f) # rest) =
     (if is_snapshot name
      then case modified f of Some m \<Rightarrow> (m, name) # collect_snapshots rest | None \<Rightarrow> collect_snapshots rest
      else collect_snapshots rest)"

definition old_snapshots :: "hash_order \<Rightarrow> snap_dir \<Rightarrow> nat \<Rightarrow> string list" where
  "old_snapshots ord dir max_snapshots =
     (let snaps = sort_key fst (collect_snapshots (iter_map ord dir))
      in if length snaps > max_snapshots
         then map snd (take (length snaps - max_snapshots) snaps) else [])"

text \<open>The removal of one file may fail, which is only logged.\<close>

definition clean_old_snapshots :: "hash_order \<Rightarrow> (string \<Rightarrow> bool) \<Rightarrow> nat \<Rightarrow> snap_dir \<Rightarrow> snap_dir" where
  "clean_old_snapshots ord remove_ok max_snapshots dir =
     fold (\<lambda>old d. if remove_ok old then fmdrop old d else d) (old_snapshots ord dir max_snapshots) dir"

definition snapshot_name :: "u128 \<Rightarrow> string" where
  "snapshot_name ts = ''snapshot_'' @ show_nat (unat ts) @ ''.json.enc''"

text \<open>
  One tick: serialise, encrypt and write; every failure is logged and skips the write, and the
  cleanup runs in any case. The serialiser of the whole store is a parameter.
\<close>

definition snapshot_tick ::
    "'v codec \<Rightarrow> ('v kv_store \<Rightarrow> string option) \<Rightarrow> hash_order \<Rightarrow> (string \<Rightarrow> bool) \<Rightarrow> bool \<Rightarrow> string \<Rightarrow>
     u128 \<Rightarrow> nat \<Rightarrow> nat \<Rightarrow> 'v kv_store \<Rightarrow> snap_dir \<Rightarrow> snap_dir" where
  "snapshot_tick C to_json ord remove_ok write_ok nonce ts mtime max_snapshots s dir =
     (let dir1 = (case to_json s of
                    None \<Rightarrow> dir
                  | Some plain \<Rightarrow>
                      (case encrypt C nonce plain of
                         Inl _ \<Rightarrow> dir
                       | Inr enc_b64 \<Rightarrow>
                           if write_ok
                           then fmupd (snapshot_name ts) \<lparr>modified = Some mtime, contents = enc_b64\<rparr> dir
                           else dir))
      in clean_old_snapshots ord remove_ok max_snapshots dir1)"

section \<open>Lemmas\<close>

lemma mem_collect_snapshots:
  "(m, name) \<in> set (collect_snapshots fs) \<longleftrightarrow> is_snapshot name \<and> (\<exists>f. (name, f) \<in> set fs \<and> modified f = Some m)"
  by (induction fs rule: collect_snapshots.induct) (auto split: option.splits)

lemma collect_snapshots_names:
  "map snd (collect_snapshots fs) =
     map fst (filter (\<lambda>(name, f). is_snapshot name \<and> modified f \<noteq> None) fs)"
  by (induction fs rule: collect_snapshots.induct) (auto split: option.splits)

lemma distinct_collect_snapshots: "distinct (map fst fs) \<Longrightarrow> distinct (map snd (collect_snapshots fs))"
  unfolding collect_snapshots_names by (induction fs) auto

lemma lookup_removals:
  "fmlookup (fold (\<lambda>old d. if remove_ok old then fmdrop old d else d) olds dir) n =
     (if n \<in> set olds \<and> remove_ok n then None else fmlookup dir n)"
  by (induction olds arbitrary: dir) auto

text \<open>The snapshots of a directory that the cleanup considers.\<close>

definition dated_snapshots :: "snap_dir \<Rightarrow> string set" where
  "dated_snapshots dir = {n. is_snapshot n \<and> (\<exists>f m. fmlookup dir n = Some f \<and> modified f = Some m)}"

lemma set_sorted_snapshots:
  "(m, n) \<in> set (sort_key fst (collect_snapshots (iter_map ord dir))) \<longleftrightarrow>
     is_snapshot n \<and> (\<exists>f. fmlookup dir n = Some f \<and> modified f = Some m)"
  by (simp add: mem_collect_snapshots mem_iter_map)

lemma names_sorted_snapshots:
  "snd ` set (sort_key fst (collect_snapshots (iter_map ord dir))) = dated_snapshots dir"
proof -
  have "n \<in> snd ` set (sort_key fst (collect_snapshots (iter_map ord dir))) \<longleftrightarrow> n \<in> dated_snapshots dir" for n
    using set_sorted_snapshots [of _ n ord dir] by (force simp: dated_snapshots_def)
  then show ?thesis
    by blast
qed

lemma distinct_sorted_snapshots:
  "distinct (map snd (sort_key fst (collect_snapshots (iter_map ord dir))))"
proof -
  have "mset (map snd (sort_key fst (collect_snapshots (iter_map ord dir)))) =
      mset (map snd (collect_snapshots (iter_map ord dir)))"
    by simp
  then show ?thesis
    using distinct_collect_snapshots [OF distinct_iter_map, of ord dir] mset_eq_imp_distinct_iff by blast
qed

text \<open>The removed and the kept snapshots are the two halves of the sorted list.\<close>

lemma snapshots_partition:
  obtains old new where "sort_key fst (collect_snapshots (iter_map ord dir)) = old @ new"
    and "set (old_snapshots ord dir n) = snd ` set old"
    and "length new = min n (card (dated_snapshots dir))"
    and "dated_snapshots dir - snd ` set old = snd ` set new"
proof -
  define snaps where "snaps = sort_key fst (collect_snapshots (iter_map ord dir))"
  define old where "old = take (length snaps - n) snaps"
  define new where "new = drop (length snaps - n) snaps"
  have "length snaps = card (dated_snapshots dir)"
    using distinct_card [OF distinct_sorted_snapshots, of ord dir] names_sorted_snapshots [of ord dir]
    by (simp add: snaps_def)
  then have len: "length new = min n (card (dated_snapshots dir))"
    by (simp add: new_def)
  have split: "snaps = old @ new"
    by (simp add: old_def new_def)
  have "distinct (map snd old @ map snd new)"
    using distinct_sorted_snapshots [of ord dir] split unfolding snaps_def by (metis map_append)
  then have "snd ` set old \<inter> snd ` set new = {}"
    by simp
  moreover have "dated_snapshots dir = snd ` set old \<union> snd ` set new"
    using names_sorted_snapshots [of ord dir] split unfolding snaps_def by (metis image_Un set_append)
  ultimately have rest: "dated_snapshots dir - snd ` set old = snd ` set new"
    by blast
  have "set (old_snapshots ord dir n) = snd ` set old"
    by (cases "n < length snaps") (simp_all add: old_snapshots_def Let_def snaps_def [symmetric] old_def)
  from that [OF split [unfolded snaps_def] this len rest] show thesis .
qed

section \<open>Properties of snapshots\<close>

text \<open>
  C35: cleaning keeps the newest snapshots. When every removal succeeds, as many snapshots are
  left as the limit allows, none that was removed is newer than one that was kept, and no
  other file of the directory is touched.
\<close>

theorem cleaning_keeps_newest:
  assumes "\<forall>n. remove_ok n" and "dir' = clean_old_snapshots ord remove_ok limit dir"
  shows "card (dated_snapshots dir') = min limit (card (dated_snapshots dir)) \<and>
    (\<forall>r k f g. r \<in> dated_snapshots dir \<longrightarrow> r \<notin> dated_snapshots dir' \<longrightarrow> k \<in> dated_snapshots dir' \<longrightarrow>
       fmlookup dir r = Some f \<longrightarrow> fmlookup dir k = Some g \<longrightarrow> the (modified f) \<le> the (modified g)) \<and>
    (\<forall>n. n \<notin> dated_snapshots dir \<longrightarrow> fmlookup dir' n = fmlookup dir n)"
proof -
  obtain old new where split: "sort_key fst (collect_snapshots (iter_map ord dir)) = old @ new"
    and olds: "set (old_snapshots ord dir limit) = snd ` set old"
    and len: "length new = min limit (card (dated_snapshots dir))"
    and kept: "dated_snapshots dir - snd ` set old = snd ` set new"
    by (rule snapshots_partition)
  have look: "fmlookup dir' n = (if n \<in> snd ` set old then None else fmlookup dir n)" for n
    using assms(1) unfolding assms(2) clean_old_snapshots_def lookup_removals olds by simp
  then have "dated_snapshots dir' = dated_snapshots dir - snd ` set old"
    by (auto simp: dated_snapshots_def split: if_splits)
  with kept have dated: "dated_snapshots dir' = snd ` set new"
    by simp
  have "distinct (map snd new)"
    using distinct_sorted_snapshots [of ord dir] unfolding split by simp
  then have "card (dated_snapshots dir') = min limit (card (dated_snapshots dir))"
    using distinct_card len unfolding dated by force
  moreover have "the (modified f) \<le> the (modified g)"
    if mem: "r \<in> dated_snapshots dir" "r \<notin> dated_snapshots dir'" "k \<in> dated_snapshots dir'"
      "fmlookup dir r = Some f" "fmlookup dir k = Some g" for r k f g
  proof -
    have "r \<in> snd ` set old" and "k \<in> snd ` set new"
      using mem(1-3) kept dated by auto
    then obtain mr mk where m: "(mr, r) \<in> set old" "(mk, k) \<in> set new"
      by auto
    have "sorted (map fst (old @ new))"
      unfolding split [symmetric] by simp
    with m have "mr \<le> mk"
      by (force simp: sorted_append)
    moreover have "modified f = Some mr" and "modified g = Some mk"
      using m mem(4,5) set_sorted_snapshots [of mr r ord dir] set_sorted_snapshots [of mk k ord dir]
      unfolding split by auto
    ultimately show ?thesis
      by simp
  qed
  moreover have "fmlookup dir' n = fmlookup dir n" if "n \<notin> dated_snapshots dir" for n
    using that look names_sorted_snapshots [of ord dir] unfolding split by auto
  ultimately show ?thesis
    by blast
qed

theorem cleaning_keeps_newest_witness:
  "card (dated_snapshots (clean_old_snapshots sorted_order (\<lambda>_. True) 0
     (fmupd ''snapshot_1.json.enc'' \<lparr>modified = Some 5, contents = ''''\<rparr> fmempty))) = 0"
  using cleaning_keeps_newest [OF _ refl, of "\<lambda>_. True" sorted_order 0] by simp

end
