(* ===== verification/Probing.thy ===== *)
theory Probing
  imports Wire
begin

text \<open>
  The probes of the failure detector as HTTP requests served by the probed nodes and the
  helpers: when a probe succeeds in a network in which some nodes cannot reach others.
\<close>

section \<open>Probes as requests\<close>

text \<open>
  The address part of \<^verbatim>\<open>build_url\<close>, the request of a heartbeat, and that of an indirect ping, whose JSON
  body \<open>encode_ping\<close> writes.
\<close>

definition node_base :: "('v, 'c) env \<Rightarrow> string \<Rightarrow> string" where
  "node_base E n =
     get_scheme E @ ''://'' @
     trim_end_matches_char (CHR ''/'') (trim_start_matches ''https://'' (trim_start_matches ''http://'' n))"

definition heartbeat_message :: "'v client \<Rightarrow> string \<Rightarrow> raw_request option" where
  "heartbeat_message C url =
     map_option (\<lambda>p. \<lparr>req_method = GET, req_path = p, headers = fmempty, content = []\<rparr>) (url_path C url)"

definition ping_headers :: http_request where
  "ping_headers = fmupd ''Content-Type'' (HText ''application/json'') fmempty"

definition ping_message :: "'v client \<Rightarrow> (string \<Rightarrow> string) \<Rightarrow> string \<Rightarrow> string \<Rightarrow> raw_request option" where
  "ping_message C encode_ping url tgt =
     map_option (\<lambda>p. \<lparr>req_method = POST, req_path = p, headers = ping_headers, content = encode_ping tgt\<rparr>)
       (url_path C url)"

text \<open>
  \<open>route_to url\<close> is the server a request of this node to \<open>url\<close> gets to, and \<^const>\<open>None\<close> when none
  answers in time. A request succeeds if a server is reached and answers with a success status.
\<close>

type_synonym ('v, 'c) host = "('v, 'c) env \<times> 'v surroundings \<times> ('v, 'c) server"

definition reply_ok :: "('v, 'f) http_reply \<Rightarrow> bool" where
  "reply_ok reply \<longleftrightarrow> (case reply of Reply r \<Rightarrow> body r \<noteq> NoResponse \<and> is_success (code r) | _ \<Rightarrow> True)"

definition request_ok ::
    "('v, 'f) web \<Rightarrow> (string \<Rightarrow> ('v, 'c) host option) \<Rightarrow> string \<Rightarrow> raw_request option \<Rightarrow> bool" where
  "request_ok W route_to url request =
     (case (request, route_to url) of
        (Some req, Some (E, S, sv)) \<Rightarrow> reply_ok (fst (serve W E S req sv))
      | _ \<Rightarrow> False)"

definition served_network ::
    "('v, 'f) web \<Rightarrow> 'v client \<Rightarrow> (string \<Rightarrow> string) \<Rightarrow> (string \<Rightarrow> ('v, 'c) host option) \<Rightarrow> network" where
  "served_network W C encode_ping route_to =
     \<lparr>get_ok = (\<lambda>url. request_ok W route_to url (heartbeat_message C url)),
      post_ok = (\<lambda>url tgt. request_ok W route_to url (ping_message C encode_ping url tgt))\<rparr>"

text \<open>The receiver of a ping reads the target the sender wrote.\<close>

definition reads_ping :: "('v, 'f) web \<Rightarrow> (string \<Rightarrow> string) \<Rightarrow> bool" where
  "reads_ping W encode_ping \<longleftrightarrow> (\<forall>tgt. json_ping W ping_headers (encode_ping tgt) = Some \<lparr>ping_target = tgt\<rparr>)"

section \<open>Lemmas\<close>

lemma build_url_base:
  "build_url E n ''heartbeat'' = node_base E n @ join_path [''heartbeat'']"
  "build_url E n ''indirect_ping'' = node_base E n @ join_path [''indirect_ping'']"
  by (simp_all add: build_url_def node_base_def Let_def trim_start_matches_char_def)

lemma probe_words: "plain ''heartbeat''" "plain ''indirect_ping''"
  by (simp_all add: plain_def plain_char_def)

lemma single_path_route:
  assumes "plain_paths W" and "plain s"
  shows "path_segments (requote W (join_path [s])) = Some [s]"
proof -
  have "\<forall>x \<in> set [s]. plain x"
    using assms(2) by simp
  then have "requote W (join_path [s]) = join_path [s]"
    using assms(1) unfolding plain_paths_def by blast
  then show ?thesis
    using path_segments_join [of "[s]"] assms(2) by (simp add: plain_no_slash)
qed

lemma url_path_single:
  assumes "plain_urls C base" and "plain s"
  shows "url_path C (base @ join_path [s]) = Some (join_path [s])"
  using assms unfolding plain_urls_def by (metis empty_iff empty_set list.distinct(1) set_ConsD)

lemma served_get_ok:
  fixes W :: "('v, 'f) web" and route_to :: "string \<Rightarrow> ('v, 'c) host option"
  assumes "first_match W" and "plain_paths W" and "plain_urls C (node_base E n)"
  shows "get_ok (served_network W C encode_ping route_to) (build_url E n ''heartbeat'') \<longleftrightarrow>
    route_to (build_url E n ''heartbeat'') \<noteq> None"
proof -
  let ?req = "\<lparr>req_method = GET, req_path = join_path [''heartbeat''], headers = fmempty, content = []\<rparr>"
  have "heartbeat_message C (build_url E n ''heartbeat'') = Some ?req"
    unfolding build_url_base heartbeat_message_def url_path_single [OF assms(3) probe_words(1)] by simp
  moreover have "route_request tls GET (requote W (join_path [''heartbeat''])) = Some (Heartbeat, [])" for tls
    using single_path_route [OF assms(2) probe_words(1)]
    by (simp add: route_request_def http_routes_def https_routes_def del: join_path_simps)
  then have "fst (serve W E' S' ?req sv) = Reply (heartbeat E')" for E' S' and sv :: "('v, 'c) server"
    using serve_reply [OF assms(1), of E' ?req Heartbeat "[]" S' sv] by (simp add: dispatch_def answer_def Let_def)
  ultimately show ?thesis
    by (auto simp: served_network_def request_ok_def reply_ok_def heartbeat_def is_success_def split: option.splits)
qed

lemma served_post_ok:
  fixes W :: "('v, 'f) web" and route_to :: "string \<Rightarrow> ('v, 'c) host option"
  assumes "first_match W" and "plain_paths W" and "plain_urls C (node_base E h)" and "reads_ping W encode_ping"
  shows "post_ok (served_network W C encode_ping route_to) (build_url E h ''indirect_ping'') tgt \<longleftrightarrow>
    (\<exists>E' S' sv. route_to (build_url E h ''indirect_ping'') = Some (E', S', sv) \<and>
       get_ok (net S') (build_url E' tgt ''heartbeat''))"
proof -
  let ?req = "\<lparr>req_method = POST, req_path = join_path [''indirect_ping''], headers = ping_headers,
    content = encode_ping tgt\<rparr>"
  have "ping_message C encode_ping (build_url E h ''indirect_ping'') tgt = Some ?req"
    unfolding build_url_base ping_message_def url_path_single [OF assms(3) probe_words(2)] by simp
  moreover have "route_request tls POST (requote W (join_path [''indirect_ping''])) = Some (IndirectPing, [])" for tls
    using single_path_route [OF assms(2) probe_words(2)]
    by (simp add: route_request_def http_routes_def https_routes_def del: join_path_simps)
  then have "fst (serve W E' S' ?req sv) = Reply (indirect_ping E' (net S') tgt)" for E' S' and sv :: "('v, 'c) server"
    using serve_reply [OF assms(1), of E' ?req IndirectPing "[]" S' sv] assms(4)
    by (simp add: dispatch_def answer_def extracting_def reads_ping_def Let_def)
  ultimately show ?thesis
    by (auto simp: served_network_def request_ok_def reply_ok_def indirect_ping_def is_success_def split: option.splits)
qed

lemma indirect_success_iff:
  "indirect_success E N tgt hs \<longleftrightarrow> (\<exists>h \<in> set hs. post_ok N (build_url E h ''indirect_ping'') tgt)"
  by (induction hs) auto

section \<open>Properties of probes\<close>

text \<open>
  C12: a probe finds out whether the node can be reached. It succeeds exactly if the prober reaches the target
  itself or reaches one of the at most two chosen helpers that reaches the target, so a broken link
  between two nodes is bridged; then, and only then, the target is listed as active with the time
  of the probe, and otherwise its last heartbeat stays.
\<close>

theorem probe_verdict:
  assumes "first_match W" and "plain_paths W" and "reads_ping W encode_ping"
    and "\<forall>q \<in> insert tgt (set (ping_helpers E shuffle tgt ns)). plain_urls C (node_base E q)"
    and "fmlookup ns tgt = Some info"
  shows "let ok = probe_target E (served_network W C encode_ping route_to) shuffle tgt ns in
    (ok \<longleftrightarrow> route_to (build_url E tgt ''heartbeat'') \<noteq> None \<or>
       (\<exists>h \<in> set (ping_helpers E shuffle tgt ns). \<exists>E' S' sv.
          route_to (build_url E h ''indirect_ping'') = Some (E', S', sv) \<and>
          get_ok (net S') (build_url E' tgt ''heartbeat''))) \<and>
    fmlookup (record_probe t thr ok tgt ns) tgt =
      Some (if ok then \<lparr>status = Active, last_heartbeat = t\<rparr> else update_node_status t thr info)"
  using assms(4,5)
  by (simp add: Let_def probe_target_def served_get_ok [OF assms(1,2)] indirect_success_iff
      served_post_ok [OF assms(1,2) _ assms(3)] record_probe_lookup)

text \<open>Node \<open>n1\<close> cannot reach \<open>n2\<close>, but the helper \<open>n3\<close> can.\<close>

theorem probe_verdict_witness:
  "let ns = fmupd ''n3'' \<lparr>status = Active, last_heartbeat = 1\<rparr> (nodes sample_node);
       route_to = [''http://n3/indirect_ping'' \<mapsto> (sample_env ''n3'' 9, sample_surroundings, server_new sample_node)];
       ok = probe_target (sample_env ''n1'' 9) (served_network sample_web sample_client (\<lambda>s. s) route_to) sorted_order ''n2'' ns
   in ok \<and> fmlookup (record_probe 9 25000 ok ''n2'' ns) ''n2'' = Some \<lparr>status = Active, last_heartbeat = 9\<rparr>"
proof -
  let ?E = "sample_env ''n1'' 9" and ?E' = "sample_env ''n3'' 9"
  let ?ns = "fmupd ''n3'' \<lparr>status = Active, last_heartbeat = 1\<rparr> (nodes sample_node)"
  let ?route = "[''http://n3/indirect_ping'' \<mapsto> (?E', sample_surroundings, server_new sample_node)]"
  have helpers: "ping_helpers ?E sorted_order ''n2'' ?ns = [''n3'']"
    and bases: "node_base ?E ''n2'' = ''http://n2''" "node_base ?E ''n3'' = ''http://n3''"
    and url: "build_url ?E ''n3'' ''indirect_ping'' = ''http://n3/indirect_ping''"
    and reach: "get_ok (net sample_surroundings) (build_url ?E' ''n2'' ''heartbeat'')"
    by code_simp+
  have "plain_urls sample_client ''http://n2''" "plain_urls sample_client ''http://n3''"
    using sample_client_plain [of "''n2''"] sample_client_plain [of "''n3''"] by simp_all
  then have urls: "\<forall>q \<in> insert ''n2'' (set (ping_helpers ?E sorted_order ''n2'' ?ns)).
      plain_urls sample_client (node_base ?E q)"
    by (simp add: helpers bases)
  have reads: "reads_ping sample_web (\<lambda>s. s)"
    by (simp add: reads_ping_def sample_web_def)
  have known: "fmlookup ?ns ''n2'' = Some \<lparr>status = Active, last_heartbeat = 1\<rparr>"
    by (simp add: sample_node_def)
  define ok where "ok = probe_target ?E (served_network sample_web sample_client (\<lambda>s. s) ?route) sorted_order ''n2'' ?ns"
  note verdict = probe_verdict [OF sample_web_first_match sample_web_plain reads urls known,
      where route_to = ?route and t = 9 and thr = 25000, unfolded Let_def, folded ok_def]
  have ok
    using conjunct1 [OF verdict] reach by (simp add: helpers url)
  with conjunct2 [OF verdict] show ?thesis
    unfolding Let_def ok_def [symmetric] by simp
qed

end
