(* ===== verification/Lifetime.thy ===== *)
theory Lifetime
  imports Server
begin

text \<open>
  The life of a process: it starts as \<^verbatim>\<open>main\<close> starts it, serves requests, records the outcomes of
  its probes, and loses subscribers. The theory states what holds of its state at every moment.
\<close>

section \<open>The steps of a process\<close>

text \<open>
  The steps happen at the granularity of the locks; \<open>late_removal\<close> is the second part of a
  \<^verbatim>\<open>DELETE\<close> whose owner check was passed in an earlier state. \<open>V\<close> is what holds of
  the versions that come from outside: from cold storage, from the node that is joined, and in
  internal writes.
\<close>

definition store_all :: "('v versioned_value \<Rightarrow> bool) \<Rightarrow> 'v kv_store \<Rightarrow> bool" where
  "store_all V s \<longleftrightarrow> (\<forall>t k v. store_get t k s = Some v \<longrightarrow> V v)"

definition outside_all ::
    "('v versioned_value \<Rightarrow> bool) \<Rightarrow> 'v kv_store load \<Rightarrow> 'v kv_store reply \<Rightarrow> bool" where
  "outside_all V cold store_reply \<longleftrightarrow>
     (case cold of Loaded s \<Rightarrow> store_all V s | _ \<Rightarrow> True) \<and>
     (case store_reply of Some (c, Some s) \<Rightarrow> store_all V s | _ \<Rightarrow> True)"

inductive lifetime :: "('v, 'f) web \<Rightarrow> ('v versioned_value \<Rightarrow> bool) \<Rightarrow> string \<Rightarrow> ('v, 'c) server \<Rightarrow> bool"
  for W :: "('v, 'f) web" and V :: "'v versioned_value \<Rightarrow> bool" and addr :: string where
  boot: "current_addr E = addr \<Longrightarrow> outside_all V cold store_reply \<Longrightarrow>
    start_node E args jwt_var cold join_reply store_reply = Serving nd \<Longrightarrow> lifetime W V addr (server_new nd)"
| request: "lifetime W V addr sv \<Longrightarrow> current_addr E = addr \<Longrightarrow> (\<And>v. carried W req v \<Longrightarrow> V v) \<Longrightarrow>
    lifetime W V addr (fst (snd (serve W E S req sv)))"
| late_removal: "lifetime W V addr sv \<Longrightarrow> current_addr E = addr \<Longrightarrow>
    lifetime W V addr (sv\<lparr>state := fst (snd (delete_removal E (t, k) (state sv)))\<rparr>)"
| probe: "lifetime W V addr sv \<Longrightarrow>
    lifetime W V addr (sv\<lparr>state := (state sv)\<lparr>nodes := record_probe t thr ok tgt (nodes (state sv))\<rparr>\<rparr>)"
| hang_up: "lifetime W V addr sv \<Longrightarrow> fmlookup (channels (state sv)) i = Some c \<Longrightarrow>
    lifetime W V addr (sv\<lparr>state := (state sv)\<lparr>channels := fmupd i c' (channels (state sv))\<rparr>\<rparr>)"

section \<open>Well-formed states\<close>

definition clocked :: "'v versioned_value \<Rightarrow> bool" where
  "clocked v \<longleftrightarrow> vector_clock v \<noteq> fmempty"

definition well_formed :: "string \<Rightarrow> ('v, 'c) node \<Rightarrow> bool" where
  "well_formed addr nd \<longleftrightarrow>
     ''default'' |\<in>| fmdom (store nd) \<and> addr |\<in>| fmdom (nodes nd) \<and>
     (\<forall>i. i |\<in>| fmdom (channels nd) \<longrightarrow> (\<exists>t k. i = channel_id t k))"

lemma clocked_intros [simp]:
  "clocked (vv_new t val u n)" "clocked (vv_update t val n v)" "clocked (vv_patch t f upd n v)"
  by (auto simp: clocked_def vv_new_def vv_update_def vv_patch_def bump_clock_def
      dest: arg_cong [where f = "\<lambda>m. fmlookup m n"])

text \<open>
  What every change leaves intact: tables and nodes are never dropped, channels belong to a key,
  and a version that was not there before came from outside or has a clock.
\<close>

definition evolved :: "('v versioned_value \<Rightarrow> bool) \<Rightarrow> ('v, 'c) node \<Rightarrow> ('v, 'c) node \<Rightarrow> bool" where
  "evolved V nd nd' \<longleftrightarrow>
     fset (fmdom (store nd)) \<subseteq> fset (fmdom (store nd')) \<and>
     fset (fmdom (nodes nd)) \<subseteq> fset (fmdom (nodes nd')) \<and>
     (\<forall>i. i |\<in>| fmdom (channels nd') \<longrightarrow> i |\<in>| fmdom (channels nd) \<or> (\<exists>t k. i = channel_id t k)) \<and>
     (\<forall>t k v. store_get t k (store nd') = Some v \<longrightarrow> store_get t k (store nd) = Some v \<or> V v \<or> clocked v)"

lemma evolved_refl [simp]: "evolved V nd nd"
  by (simp add: evolved_def)

lemma evolved_mono: "evolved V nd nd' \<Longrightarrow> (\<And>v. V v \<Longrightarrow> V' v) \<Longrightarrow> evolved V' nd nd'"
  unfolding evolved_def by blast

lemma notify_dom: "i |\<in>| fmdom (notify bc' t k e chans) \<Longrightarrow> i |\<in>| fmdom chans"
  by (auto simp: notify_def notify_send_def notify_cleanup_def Let_def fmdomI
      split: option.splits prod.splits if_splits)

lemma subscribe_dom:
  "i |\<in>| fmdom (snd (subscribe bc' t k chans)) \<Longrightarrow> i |\<in>| fmdom chans \<or> i = channel_id t k"
  by (auto simp: subscribe_def Let_def split: option.splits prod.splits)

lemma merge_nodes_dom: "fset (fmdom ns) \<subseteq> fset (fmdom (merge_nodes incoming ns))"
  by (induction incoming ns rule: merge_nodes.induct) (use merge_node_dom(1) in fastforce)+

lemma evolved_touch: "evolved V nd (nd\<lparr>store := touch_table t (store nd)\<rparr>)"
  by (auto simp: evolved_def fmdom_touch store_simps)

lemma evolved_write:
  "V v \<or> clocked v \<or> store_get t k (store nd) = Some v \<Longrightarrow>
   evolved V nd (commit_write E t k v (nd\<lparr>store := touch_table t (store nd)\<rparr>))"
  by (auto simp: evolved_def fmdom_touch fmdom_insert store_simps dest: notify_dom split: if_splits)

lemma evolved_remove:
  "evolved V nd (notify_node E t k Deleted (nd\<lparr>store := store_remove t k (store nd)\<rparr>))"
  by (auto simp: evolved_def fmdom_remove store_simps dest: notify_dom split: if_splits)

lemmas evolved_intros = evolved_refl evolved_touch evolved_write evolved_remove

lemma handled_evolved:
  assumes "handled E hs V nd nd'"
  shows "evolved V nd nd'"
  using assms
proof cases
  case (joined free n s)
  then show ?thesis
    by (auto simp: evolved_def join_cluster_def Let_def)
next
  case (gossiped ms)
  then show ?thesis
    using merge_nodes_dom by (auto simp: evolved_def update_membership_def split: option.splits)
next
  case (internal_put v t k)
  then show ?thesis
    by (auto simp: put_value_internal_def Let_def store_simps merge_version_def
        intro!: evolved_intros split: option.splits)
next
  case (put t k val)
  then show ?thesis
    by (auto simp: put_value_def Let_def intro!: evolved_intros split: sum.splits option.splits)
next
  case (patch t k upd)
  then show ?thesis
    by (auto simp: patch_value_def Let_def intro!: evolved_intros split: sum.splits option.splits)
next
  case (deleted t k)
  then show ?thesis
    by (auto simp: delete_value_parts Let_def intro!: evolved_intros split: sum.splits)
next
  case (subscribed t k)
  then show ?thesis
    by (auto simp: evolved_def dest: subscribe_dom)
next
  case (accessed user b)
  have internal: "evolved V nd (fst (snd (access_internal E hs user b nd)))"
    using evolved_write [where V = V and E = E and t = "''auth''" and k = user and nd = nd]
    by (auto simp: access_internal_def Let_def commit_write_def split: option.splits)
  have "check_account E user s c = Inr (True, v) \<Longrightarrow> clocked v" for s c v
    by (auto simp: check_account_def split: option.splits if_splits)
  with accessed internal show ?thesis
    by (auto simp: access_def Let_def intro!: evolved_intros split: sum.splits option.splits bool.splits prod.splits)
next
  case (admin_put t k val)
  then show ?thesis
    by (auto simp: admin_put_record_def Let_def intro!: evolved_intros split: option.splits)
next
  case (admin_deleted t k)
  then show ?thesis
    by (auto simp: admin_delete_record_def Let_def intro!: evolved_intros)
qed simp

section \<open>The start\<close>

lemma merge_global_tables: "fset (fmdom s) \<subseteq> fset (fmdom (merge_global_store ord remote s))"
  by (induction ord remote s rule: merge_global_store.induct) auto

lemma adopt_store_tables: "fset (fmdom s) \<subseteq> fset (fmdom (adopt_store ord sr s))"
  using merge_global_tables by (auto simp: adopt_store_def split: option.splits)

lemma adopt_store_all:
  assumes "store_all V s" and "\<And>c r. sr = Some (c, Some r) \<Longrightarrow> store_all V r"
  shows "store_all V (adopt_store ord sr s)"
proof -
  have "store_all V (merge_global_store ord (iter_map ord r) s)" if "store_all V r" for r
    unfolding store_all_def
  proof (intro allI impI)
    fix t k v
    assume "store_get t k (merge_global_store ord (iter_map ord r) s) = Some v"
    then have "store_get t k s = Some v \<or> store_get t k r = Some v"
      by (auto simp: merge_remote_store merge_cell_def merge_version_def split: option.splits if_splits)
    with that assms(1) show "V v"
      by (auto simp: store_all_def)
  qed
  moreover have "store_all V fmempty"
    by (simp add: store_all_def store_get_def)
  ultimately show ?thesis
    using assms by (auto simp: adopt_store_def split: option.splits)
qed

lemma start_well_formed:
  assumes "start_node E args jwt_var cold join_reply store_reply = Serving nd"
    and "outside_all V cold store_reply"
  shows "well_formed (current_addr E) nd" and "store_all V (store nd)"
proof -
  define s where "s = touch_table ''default'' (case cold of Loaded s \<Rightarrow> s | _ \<Rightarrow> fmempty)"
  have default: "''default'' |\<in>| fmdom s"
    by (simp add: s_def fmdom_touch)
  have "store_all V s"
    using assms(2) by (cases cold) (auto simp: s_def outside_all_def store_all_def store_simps, simp_all add: store_get_def)
  moreover have "\<And>c r. store_reply = Some (c, Some r) \<Longrightarrow> store_all V r"
    using assms(2) by (simp add: outside_all_def)
  ultimately have all: "store_all V (adopt_store (iter_order E) store_reply s)"
    by (rule adopt_store_all)
  have me: "current_addr E |\<in>| fmdom (initial_nodes E)"
    "current_addr E |\<in>| fmdom (adopt_nodes (iter_order E) join_reply (initial_nodes E))"
    by (auto simp: initial_nodes_def adopt_nodes_def split: option.splits)
  have nd: "nd = \<lparr>store = s, nodes = initial_nodes E, channels = fmempty\<rparr> \<or>
      nd = \<lparr>store = adopt_store (iter_order E) store_reply s,
            nodes = adopt_nodes (iter_order E) join_reply (initial_nodes E), channels = fmempty\<rparr>"
    using assms(1) by (auto simp: start_node_def s_def sub_manager_new_def Let_def split: load.splits if_splits)
  then show "store_all V (store nd)"
    using all \<open>store_all V s\<close> by auto
  have "''default'' |\<in>| fmdom (adopt_store (iter_order E) store_reply s)"
    using default adopt_store_tables by blast
  with nd show "well_formed (current_addr E) nd"
    using me default by (auto simp: well_formed_def)
qed

section \<open>Properties of a process\<close>

lemma evolved_well_formed: "evolved V nd nd' \<Longrightarrow> well_formed addr nd \<Longrightarrow> well_formed addr nd'"
  unfolding evolved_def well_formed_def by (elim conjE, intro conjI) (blast+)

lemma evolved_store_all:
  "evolved V nd nd' \<Longrightarrow> store_all (\<lambda>v. V v \<or> clocked v) (store nd) \<Longrightarrow> store_all (\<lambda>v. V v \<or> clocked v) (store nd')"
  unfolding evolved_def store_all_def by blast

lemma evolved_removal: "evolved V nd (fst (snd (delete_removal E (t, k) nd)))"
  by (simp add: delete_removal_def Let_def evolved_remove)

text \<open>
  C3: the state of a process stays well-formed. At every moment of every run, whatever it is
  asked, the table \<^verbatim>\<open>default\<close> exists, the process is in its own membership table, and every
  channel belongs to a table and a key. Every stored record has a clock entry or is one of the
  versions that came from outside; so if all of those have a clock entry, every stored record has one.
\<close>

theorem process_well_formed:
  assumes "lifetime W V addr sv"
  shows "well_formed addr (state sv) \<and> store_all (\<lambda>v. V v \<or> clocked v) (store (state sv)) \<and>
    ((\<forall>v. V v \<longrightarrow> clocked v) \<longrightarrow> store_all clocked (store (state sv)))"
proof -
  have "well_formed addr (state sv) \<and> store_all (\<lambda>v. V v \<or> clocked v) (store (state sv))"
    using assms
  proof (induction rule: lifetime.induct)
    case boot
    then show ?case
      using start_well_formed by (fastforce simp: server_new_def store_all_def)
  next
    case (request sv E req S)
    have "evolved (carried W req) (state sv) (state (fst (snd (serve W E S req sv))))"
      by (rule handled_evolved [OF serve_handled])
    then have "evolved V (state sv) (state (fst (snd (serve W E S req sv))))"
      using request(3) by (rule evolved_mono)
    then show ?case
      using request.IH evolved_well_formed evolved_store_all by blast
  next
    case (late_removal sv E t k)
    from evolved_removal [of V "state sv" E t k] late_removal.IH show ?case
      using evolved_well_formed evolved_store_all by fastforce
  next
    case (probe sv)
    then show ?case
      by (simp add: well_formed_def)
  next
    case (hang_up sv i)
    then show ?case
      by (auto simp: well_formed_def fmdomI)
  qed
  then show ?thesis
    by (auto simp: store_all_def)
qed

theorem process_well_formed_witness:
  "\<exists>sv :: (string, string queue_channel) server. lifetime sample_web clocked ''n1'' sv \<and> well_formed ''n1'' (state sv) \<and>
     store_all clocked (store (state sv)) \<and>
     store_get ''t'' ''k'' (store (state sv)) \<noteq> None"
proof -
  let ?E = "sample_env ''n1'' 9"
  let ?req = "sample_request PUT ''/t/key/k'' (bearer ''Ualice'') ''fx''"
  obtain nd where start: "start_node ?E [''prog'', ''n1''] (Some ''123'') (Loaded fmempty) None None = Serving nd"
    by (simp add: start_node_def Let_def)
  then have nd: "nd = \<lparr>store = fmupd ''default'' fmempty fmempty, nodes = initial_nodes ?E, channels = fmempty\<rparr>"
    by (simp add: start_node_def Let_def touch_table_def sub_manager_new_def)
  let ?sv = "fst (snd (serve sample_web ?E sample_surroundings ?req (server_new nd)))"
  have addr: "current_addr ?E = ''n1''"
    by (simp add: sample_env_def)
  have "lifetime sample_web clocked ''n1'' (server_new nd)"
    using lifetime.boot [OF addr _ start, of clocked sample_web]
    by (simp add: outside_all_def store_all_def store_get_def)
  then have life: "lifetime sample_web clocked ''n1'' ?sv"
    using addr by (rule lifetime.request) (auto simp: carried_def sample_web_def)
  have "store_get ''t'' ''k'' (store (state ?sv)) \<noteq> None"
    unfolding nd by code_simp
  with life process_well_formed [OF life] show ?thesis
    by blast
qed

section \<open>A restarted node\<close>

text \<open>
  C37: a restarted node believes the verdict on itself. Gossip is only sent to nodes the
  sender lists as active, so it never tells a node that it is down; but a join answers with
  the table as it is, with the old entry of the newcomer. A node that was declared down and rejoins
  therefore starts with itself marked down, and its own copy of the data is no replication target
  of its reads and writes.
\<close>

theorem rejoin_keeps_own_verdict:
  assumes "fmlookup (nodes peer) (current_addr E) = Some info" and "status info \<noteq> Active"
    and "join_cluster E' permit (current_addr E) (cluster_secret E') peer = (r, peer', gossip)"
    and "start_node E args jwt_var cold (nodes_reply r) sr = Serving nd" and "length args \<ge> 3"
  shows "fmlookup (nodes nd) (current_addr E) = Some info \<and>
    current_addr E \<notin> set (replication_targets E key nd) \<and>
    (\<forall>n url ms secret. GossipMembership n url ms secret \<in> set (gossip_membership E'' shuffle nd'') \<longrightarrow>
       (\<exists>i. fmlookup ms n = Some i \<and> status i = Active))"
proof (intro conjI allI impI)
  have "nodes_reply r = Some (200, Some (nodes peer))"
    using assms(1,3) by (auto simp: join_cluster_def nodes_reply_def)
  then have "nodes nd = initial_nodes E ++\<^sub>f nodes peer"
    using assms(4,5) by (auto simp: start_node_def adopt_nodes_def is_success_def Let_def split: load.splits if_splits)
  then show own: "fmlookup (nodes nd) (current_addr E) = Some info"
    using assms(1) by (simp add: fmdomI)
  show "current_addr E \<notin> set (replication_targets E key nd)"
    using set_replication_targets [of E key nd] own assms(2) by auto
next
  fix n url ms secret
  assume "GossipMembership n url ms secret \<in> set (gossip_membership E'' shuffle nd'')"
  then have "ms = nodes nd''" and "n \<in> set (gossip_targets E'' shuffle (nodes nd''))"
    by (auto simp: gossip_membership_def)
  then show "\<exists>i. fmlookup ms n = Some i \<and> status i = Active"
    by (auto simp: gossip_targets_def split: option.splits dest!: in_set_takeD)
qed

theorem rejoin_keeps_own_verdict_witness:
  "\<exists>nd. start_node (sample_env ''n2'' 50) [''prog'', ''n2'', ''n1''] (Some ''123'') (Loaded fmempty)
     (nodes_reply (fst (join_cluster (sample_env ''n1'' 40) True ''n2'' ''cs''
        (sample_node\<lparr>nodes := fmupd ''n2'' \<lparr>status = Down, last_heartbeat = 1\<rparr> (nodes sample_node)\<rparr>))))
     None = Serving nd \<and> fmlookup (nodes nd) ''n2'' = Some \<lparr>status = Down, last_heartbeat = 1\<rparr> \<and>
     ''n2'' \<notin> set (replication_targets (sample_env ''n2'' 50) ''k'' nd)"
proof -
  let ?E = "sample_env ''n2'' 50" and ?E' = "sample_env ''n1'' 40"
  let ?peer = "sample_node\<lparr>nodes := fmupd ''n2'' \<lparr>status = Down, last_heartbeat = 1\<rparr> (nodes sample_node)\<rparr>"
  have env: "current_addr ?E = ''n2''" "cluster_secret ?E' = ''cs''"
    by (simp_all add: sample_env_def cluster_secret_def)
  have peer: "fmlookup (nodes ?peer) (current_addr ?E) = Some \<lparr>status = Down, last_heartbeat = 1\<rparr>"
    by (simp add: env)
  obtain nd where start: "start_node ?E [''prog'', ''n2'', ''n1''] (Some ''123'') (Loaded fmempty)
      (nodes_reply (fst (join_cluster ?E' True (current_addr ?E) (cluster_secret ?E') ?peer))) None = Serving nd"
    by (simp add: start_node_def Let_def)
  from rejoin_keeps_own_verdict [OF peer _ triple_collapse start, of "''k''"] start show ?thesis
    by (auto simp: env)
qed

end
