(* ===== verification/Durability.thy ===== *)
theory Durability
  imports Lifetime
begin

text \<open>
  A process together with its disk: requests, the periodic save, which goes through the tables one
  by one and may be cut off anywhere, crashes, and restarts from what is on the disk.
\<close>

section \<open>A process and its disk\<close>

text \<open>
  \<open>completed\<close> records, for the theorems, the contents a table had when it was last saved to the
  end, as long as no later save into the same folder, of this table or of one whose name leads to the
  same folder, completed or was cut off.
\<close>

record ('v, 'c) machine =
  proc :: "('v, 'c) server"
  files :: disk
  completed :: "'v kv_store"

definition forget_folder :: "string \<Rightarrow> 'v kv_store \<Rightarrow> 'v kv_store" where
  "forget_folder t s = fmfilter (\<lambda>u. table_folder u \<noteq> table_folder t) s"

text \<open>
  \<^verbatim>\<open>save_to_cold\<close>, the body of the loop of \<^verbatim>\<open>cold_save\<close>, saves one table after the other, each
  as it is at that moment, so its rounds are sequences of \<open>saved\<close> steps; \<open>cut_off\<close> is a save
  that ends early, by an error or by a crash of the process. After a crash, \<open>restarted\<close>
  starts from the files.
\<close>

inductive machine_run ::
    "('v, 'f) web \<Rightarrow> 'v codec \<Rightarrow> disk \<Rightarrow> ('v, 'c) machine \<Rightarrow> bool"
  for W :: "('v, 'f) web" and C :: "'v codec" and d :: disk where
  started: "start_node E args jwt_var (load_all_tables C ord d) join_reply store_reply = Serving nd \<Longrightarrow>
    machine_run W C d \<lparr>proc = server_new nd, files = d, completed = fmempty\<rparr>"
| request: "machine_run W C d m \<Longrightarrow>
    machine_run W C d (m\<lparr>proc := fst (snd (serve W E S req (proc m)))\<rparr>)"
| late_removal: "machine_run W C d m \<Longrightarrow>
    machine_run W C d (m\<lparr>proc := (proc m)\<lparr>state := fst (snd (delete_removal E (t, k) (state (proc m))))\<rparr>\<rparr>)"
| saved: "machine_run W C d m \<Longrightarrow> fmlookup (store (state (proc m))) t = Some tbl \<Longrightarrow>
    (\<And>i. length (nonce i) = 12) \<Longrightarrow> save_table C ord nonce t tbl = (ops, True) \<Longrightarrow>
    machine_run W C d (m\<lparr>files := run_ops ops (files m), completed := fmupd t tbl (forget_folder t (completed m))\<rparr>)"
| cut_off: "machine_run W C d m \<Longrightarrow> fmlookup (store (state (proc m))) t = Some tbl \<Longrightarrow>
    save_table C ord nonce t tbl = (ops, ok) \<Longrightarrow>
    machine_run W C d (m\<lparr>files := run_ops (take n ops) (files m), completed := forget_folder t (completed m)\<rparr>)"
| restarted: "machine_run W C d m \<Longrightarrow>
    start_node E args jwt_var (load_all_tables C ord (files m)) join_reply store_reply = Serving nd \<Longrightarrow>
    machine_run W C d (m\<lparr>proc := server_new nd\<rparr>)"

text \<open>
  The loops of \<^verbatim>\<open>save_to_cold\<close> and \<^verbatim>\<open>cold_save\<close>. The table names are collected first; \<open>current t\<close> is
  the content of a table when its turn comes. An error ends the round and is only logged. (In
  \<open>save_to_cold\<close> of \<^verbatim>\<open>Persistence\<close> the store does not change during a round.)
\<close>

fun save_names ::
    "'v codec \<Rightarrow> hash_order \<Rightarrow> (string \<Rightarrow> nat \<Rightarrow> string) \<Rightarrow> (string \<Rightarrow> 'v table option) \<Rightarrow> string list \<Rightarrow>
     disk_op list \<times> bool" where
  "save_names C ord nonce current [] = ([], True)"
| "save_names C ord nonce current (t # names) =
     (case current t of
        None \<Rightarrow> save_names C ord nonce current names
      | Some tbl \<Rightarrow>
          (let (ops, ok) = save_table C ord (nonce t) t tbl in
           if \<not> ok then (ops, False)
           else let (ops', ok') = save_names C ord nonce current names in (ops @ ops', ok')))"

fun cold_save ::
    "'v codec \<Rightarrow> (hash_order \<times> (string \<Rightarrow> nat \<Rightarrow> string) \<times> (string \<Rightarrow> 'v table option) \<times> string list) list \<Rightarrow>
     disk \<Rightarrow> disk" where
  "cold_save C [] d = d"
| "cold_save C ((ord, nonce, current, names) # rounds) d =
     cold_save C rounds (run_ops (fst (save_names C ord nonce current names)) d)"

section \<open>Lemmas\<close>

lemma loaded_lookup:
  assumes "load_tables C dirs s = Loaded s'" and "distinct (map fst dirs)"
  shows "case map_of dirs t of
      Some dir \<Rightarrow> \<exists>tbl. load_table C dir = Loaded tbl \<and> fmlookup s' t = Some tbl
    | None \<Rightarrow> fmlookup s' t = fmlookup s t"
  using assms
proof (induction C dirs s rule: load_tables.induct)
  case (2 C t0 dir dirs s)
  then obtain tbl where tbl: "load_table C dir = Loaded tbl" "load_tables C dirs (fmupd t0 tbl s) = Loaded s'"
    by (auto split: load.splits)
  from 2 tbl have "map_of dirs t0 = None"
    by (simp add: map_of_eq_None_iff)
  with 2(1) [OF tbl] 2(3) tbl show ?case
    by (cases "t = t0"; cases "map_of dirs t") (simp_all del: map_of_eq_Some_iff)
qed simp

lemma load_all_tables_lookup:
  assumes "load_all_tables C ord d = Loaded s" and "fmlookup d (InCwd [''data'', t]) = Some dir" and "load_table C dir = Loaded tbl"
  shows "fmlookup s t = Some tbl"
proof -
  obtain s' where s': "load_tables C (iter_map ord (data_entries d)) fmempty = Loaded s'"
    and s: "s = apply_tables ord (iter_map ord s') fmempty"
    using assms(1) by (auto simp: load_all_tables_def split: load.splits)
  have "s = s'"
    unfolding s by (simp add: apply_tables_new distinct_iter_map)
  with loaded_lookup [OF s' distinct_iter_map, of t] assms(2,3) show ?thesis
    by (simp add: map_of_iter_map)
qed

definition saved_tables_load :: "'v codec \<Rightarrow> ('v, 'c) machine \<Rightarrow> bool" where
  "saved_tables_load C m \<longleftrightarrow>
     (\<forall>t tbl. fmlookup (completed m) t = Some tbl \<longrightarrow> (\<forall>k v. fmlookup tbl k = Some v \<longrightarrow> storable_key k \<and> storable_value C v) \<longrightarrow>
        (\<exists>dir. fmlookup (files m) (table_folder t) = Some dir \<and> load_table C dir = Loaded tbl))"

lemma saved_tables_step:
  assumes "saved_tables_load C m"
    and "\<And>f dir. fmlookup (files m) f = Some dir \<Longrightarrow> f \<noteq> table_folder t \<Longrightarrow> fmlookup fs f = Some dir"
  shows "saved_tables_load C (m\<lparr>files := fs, completed := forget_folder t (completed m)\<rparr>)"
  unfolding saved_tables_load_def
proof (intro allI impI)
  fix u tbl
  assume u: "fmlookup (completed (m\<lparr>files := fs, completed := forget_folder t (completed m)\<rparr>)) u = Some tbl"
    and rows: "\<forall>k v. fmlookup tbl k = Some v \<longrightarrow> storable_key k \<and> storable_value C v"
  then have "fmlookup (completed m) u = Some tbl" and other: "table_folder u \<noteq> table_folder t"
    by (simp_all add: forget_folder_def split: if_splits)
  with assms(1) rows obtain dir where "fmlookup (files m) (table_folder u) = Some dir" "load_table C dir = Loaded tbl"
    unfolding saved_tables_load_def by blast
  with assms(2) other show "\<exists>dir. fmlookup (files (m\<lparr>files := fs, completed := forget_folder t (completed m)\<rparr>)) (table_folder u) =
      Some dir \<and> load_table C dir = Loaded tbl"
    by simp
qed

lemma run_saved_tables_load:
  assumes "machine_run W C d m" and "codec_sound C"
  shows "saved_tables_load C m"
  using assms
proof (induction rule: machine_run.induct)
  case (saved m t tbl nonce ord ops)
  have here: "\<exists>dir. fmlookup (run_ops ops (files m)) (table_folder t) = Some dir \<and> load_table C dir = Loaded tbl"
    if "\<forall>k v. fmlookup tbl k = Some v \<longrightarrow> storable_key k \<and> storable_value C v"
  proof -
    from that have "storable_rows C (iter_map ord tbl)"
      by (auto simp: storable_rows_def mem_iter_map)
    from save_table_load [OF saved.prems saved.hyps(3) this saved.hyps(4)] show ?thesis .
  qed
  have "fmlookup (run_ops ops (files m)) f = Some dir" if "fmlookup (files m) f = Some dir" "f \<noteq> table_folder t" for f dir
    using save_table_path [OF saved.hyps(4)] that by (intro run_ops_keep) (auto simp: table_folder_def)
  with saved_tables_step [OF saved.IH [OF saved.prems], of t "run_ops ops (files m)"] here show ?case
    by (auto simp: saved_tables_load_def)
next
  case (cut_off m t tbl ord nonce ops ok n)
  have "fmlookup (run_ops (take n ops) (files m)) f = Some dir" if "fmlookup (files m) f = Some dir" "f \<noteq> table_folder t" for f dir
    using save_table_path [OF cut_off.hyps(3)] that
    by (intro run_ops_keep) (auto simp: table_folder_def dest: in_set_takeD)
  with saved_tables_step [OF cut_off.IH [OF cut_off.prems], of t "run_ops (take n ops) (files m)"] show ?case .
qed (auto simp: saved_tables_load_def)


text \<open>A round of the periodic save is a sequence of steps of the machine.\<close>

lemma save_names_static: "save_names C ord nonce (fmlookup s) (map fst (iter_map ord s)) = save_to_cold C ord nonce s"
proof -
  have "save_names C ord nonce (fmlookup s) (map fst tables) = save_tables C ord nonce tables"
    if "\<forall>(t, tbl) \<in> set tables. fmlookup s t = Some tbl" for tables
    using that by (induction tables) (auto split: prod.splits)
  moreover have "\<forall>(t, tbl) \<in> set (iter_map ord s). fmlookup s t = Some tbl"
    by (auto simp: mem_iter_map)
  ultimately show ?thesis
    by (simp add: save_to_cold_def)
qed

lemma save_round_steps:
  assumes "machine_run W C d m" and "\<And>t i. length (nonce t i) = 12"
  shows "\<exists>saves. machine_run W C d (m\<lparr>files := run_ops (fst (save_names C ord nonce
    (fmlookup (store (state (proc m)))) names)) (files m), completed := saves\<rparr>)"
  using assms(1)
proof (induction names arbitrary: m)
  case Nil
  then show ?case
    by (intro exI [of _ "completed m"]) simp
next
  case (Cons t names)
  show ?case
  proof (cases "fmlookup (store (state (proc m))) t")
    case None
    with Cons show ?thesis
      by simp
  next
    case (Some tbl)
    obtain ops ok where save: "save_table C ord (nonce t) t tbl = (ops, ok)"
      by fastforce
    show ?thesis
    proof (cases ok)
      case True
      let ?m = "m\<lparr>files := run_ops ops (files m), completed := fmupd t tbl (forget_folder t (completed m))\<rparr>"
      have "machine_run W C d ?m"
        by (rule machine_run.saved [OF Cons.prems Some, where nonce = "nonce t" and ord = ord]) (use assms(2) save True in simp_all)
      from Cons.IH [OF this] Some save True show ?thesis
        by (simp add: case_prod_beta Let_def)
    next
      case False
      from machine_run.cut_off [OF Cons.prems Some save, of "length ops"] Some save False show ?thesis
        by auto
    qed
  qed
qed


section \<open>Properties of durability\<close>

text \<open>
  C8: what was saved survives. Through any number of requests, saves, saves that were cut off,
  crashes and restarts, a table with a plain name (a single path component) is safe while its last
  save ran to its end and no later save into the same folder, by whichever name leads there, did
  anything: when the process comes up again on its own, without joining another node, and the
  loading of the files does not end in an I/O error, the table holds exactly what was saved then,
  provided its keys and values survive the text format. Saves of tables in other folders, cut off
  or not, do no harm to it.
\<close>

theorem completed_saves_survive:
  assumes "codec_sound C" and "machine_run W C d m" and "fmlookup (completed m) t = Some tbl" and "component t"
    and "\<And>k v. fmlookup tbl k = Some v \<Longrightarrow> storable_key k \<and> storable_value C v"
    and "start_node E args jwt_var (load_all_tables C ord (files m)) None None = Serving nd"
    and "load_all_tables C ord (files m) \<noteq> IoError"
  shows "store_get t k (store nd) = fmlookup tbl k"
proof -
  obtain dir where dir: "fmlookup (files m) (InCwd [''data'', t]) = Some dir" "load_table C dir = Loaded tbl"
    using run_saved_tables_load [OF assms(2,1)] assms(3,5) component_folder [OF assms(4)]
    unfolding saved_tables_load_def by metis
  obtain s where s: "load_all_tables C ord (files m) = Loaded s"
    using assms(6,7) by (cases "load_all_tables C ord (files m)") (auto simp: start_node_def split: if_splits)
  have "fmlookup s t = Some tbl"
    by (rule load_all_tables_lookup [OF s dir])
  then have "store_get t k s = fmlookup tbl k"
    by (simp add: store_get_def)
  moreover have "store nd = touch_table ''default'' s"
    using assms(6) s by (auto simp: start_node_def adopt_store_def Let_def split: if_splits)
  ultimately show ?thesis
    by (simp add: store_simps)
qed

theorem completed_saves_survive_witness:
  "let v = vv_new 5 (fmupd ''f'' ''x'' fmempty) ''alice'' ''n1''; tbl = fmupd ''k'' v fmempty
   in \<exists>(m :: (string, string queue_channel) machine) nd.
     machine_run sample_web (sample_codec v) fmempty m \<and> fmlookup (completed m) ''t'' = Some tbl \<and>
     start_node (sample_env ''n1'' 90) [''prog'', ''n1''] (Some ''123'')
       (load_all_tables (sample_codec v) reversed_order (files m)) None None = Serving nd \<and>
     store_get ''t'' ''k'' (store nd) = Some v"
proof -
  define v where "v = vv_new 5 (fmupd ''f'' ''x'' fmempty) ''alice'' ''n1''"
  define tbl where "tbl = fmupd ''k'' v fmempty"
  let ?C = "sample_codec v" and ?E = "sample_env ''n1'' 90" and ?nonce = "\<lambda>_ :: nat. ''000000000000''"
  have rows: "storable_key k \<and> storable_value ?C w" if "fmlookup tbl k = Some w" for k w
    using that sample_storable by (auto simp: tbl_def split: if_splits)
  have plain: "component ''t''"
    by (simp add: component_def)
  have empty: "load_all_tables ?C sorted_order fmempty = Loaded fmempty"
    by (rule load_all_tables_exact) simp
  obtain nd0 :: "(string, string queue_channel) node" where start:
    "start_node ?E [''prog'', ''n1'', ''n2''] (Some ''123'') (load_all_tables ?C sorted_order fmempty) None
       (Some (200, Some (fmupd ''t'' tbl fmempty))) = Serving nd0"
    by (simp add: empty start_node_def Let_def)
  have nd0: "store nd0 = adopt_store (iter_order ?E) (Some (200, Some (fmupd ''t'' tbl fmempty)))
      (touch_table ''default'' fmempty)"
    using start by (auto simp: empty start_node_def Let_def)
  have here: "fmlookup (store nd0) ''t'' = Some tbl"
    unfolding nd0 tbl_def v_def by code_simp
  obtain ops ok where save: "save_table ?C sorted_order ?nonce ''t'' tbl = (ops, ok)"
    by fastforce
  have json: "\<forall>(k, w) \<in> set (iter_map sorted_order tbl). json_of ?C w \<noteq> None"
    using rows storable_json by (fastforce simp: mem_iter_map)
  have "snd (save_rows ?C ?nonce chunk_size_limit 0 (iter_map sorted_order tbl) [])"
    by (rule save_rows_ok [OF _ json]) (simp add: sample_codec_def)
  with save have ok: "save_table ?C sorted_order ?nonce ''t'' tbl = (ops, True)"
    by (auto simp: save_table_def Let_def split: prod.splits)
  define m where "m = \<lparr>proc = server_new nd0, files = run_ops ops fmempty, completed = fmupd ''t'' tbl fmempty\<rparr>"
  have run: "machine_run sample_web ?C fmempty m"
    using machine_run.saved [OF machine_run.started [OF start, of sample_web], of "''t''" tbl ?nonce sorted_order ops] here ok
    by (simp add: m_def server_new_def forget_folder_def)
  have "storable_rows ?C (iter_map sorted_order tbl)"
    using rows by (auto simp: storable_rows_def mem_iter_map)
  from save_table_load [OF sample_codec_sound _ this ok, where d = fmempty] component_folder [OF plain]
  have dir: "\<exists>dir. fmlookup (run_ops ops fmempty) (InCwd [''data'', ''t'']) = Some dir \<and> load_table ?C dir = Loaded tbl"
    by simp
  have "fmlookup (run_ops ops fmempty) (InCwd [''data'', t]) = None" if "t \<noteq> ''t''" for t
    using that save_table_path [OF ok] plain component_folder [OF plain]
    by (subst run_ops_component) auto
  with dir have load: "load_all_tables ?C reversed_order (files m) = Loaded (fmupd ''t'' tbl fmempty)"
    unfolding m_def by (intro load_all_tables_exact) auto
  then obtain nd :: "(string, string queue_channel) node" where again:
    "start_node ?E [''prog'', ''n1''] (Some ''123'') (load_all_tables ?C reversed_order (files m)) None None = Serving nd"
    by (simp add: start_node_def Let_def)
  have "fmlookup (completed m) ''t'' = Some tbl"
    by (simp add: m_def)
  moreover from completed_saves_survive [OF sample_codec_sound run this plain rows again] load
  have "store_get ''t'' ''k'' (store nd) = Some v"
    by (simp add: tbl_def)
  ultimately show ?thesis
    using run again unfolding Let_def v_def [symmetric] tbl_def [symmetric] by blast
qed

lemma load_tables_exit:
  assumes "(t, dir) \<in> set dirs" and "load_table C dir = ProcessExit"
  shows "load_tables C dirs s \<noteq> Loaded s'"
  using assms by (induction dirs arbitrary: s) (auto split: load.splits)

lemma load_chunks_append:
  "load_chunks C (xs @ ys) tbl =
     (case load_chunks C xs tbl of Loaded tbl' \<Rightarrow> load_chunks C ys tbl' | e \<Rightarrow> e)"
  by (induction C xs tbl rule: load_chunks.induct)
    (auto simp: Let_def split: sum.splits load.splits)

text \<open>
  C39: a torn write stops the process for good. If a crash leaves, as the last line of a table's
  file, the beginning of a chunk that does not decrypt, then every later start ends in
  \<^verbatim>\<open>process::exit(1)\<close> while loading (unless another file cannot be read), until the file is repaired by hand.
\<close>

theorem torn_chunk_blocks_start:
  assumes "fmlookup d (InCwd [''data'', t]) = Some dir" and "storage_db dir = Some db" and "lines db = saved_lines @ [torn]"
    and "load_chunks C saved_lines fmempty = Loaded tbl"
    and "utf8_valid torn" and "trim torn \<noteq> []" and "decrypt C (trim torn) = Inl e"
    and "load_all_tables C ord d \<noteq> IoError"
  shows "load_table C dir = ProcessExit \<and> start_node E args jwt_var (load_all_tables C ord d) jr sr = Exit 1"
proof -
  have exit: "load_table C dir = ProcessExit"
    using assms(2-7) by (simp add: load_table_def load_chunks_append Let_def)
  have "(t, dir) \<in> set (iter_map ord (data_entries d))"
    using assms(1) by (simp add: mem_iter_map)
  with load_tables_exit [OF _ exit, of t "iter_map ord (data_entries d)" fmempty] assms(8)
  have "load_all_tables C ord d = ProcessExit"
    by (auto simp: load_all_tables_def split: load.splits)
  with exit show ?thesis
    by (simp add: start_node_def)
qed

theorem torn_chunk_blocks_start_witness:
  "start_node (sample_env ''n1'' 90) [''prog'', ''n1''] (Some ''123'')
     (load_all_tables (sample_codec (vv_new 5 fmempty ''alice'' ''n1'')) sorted_order
        (fmupd (InCwd [''data'', ''t'']) \<lparr>storage_db = Some ''A'', wal_log = None\<rparr> fmempty)) None None =
   (Exit 1 :: (string, string queue_channel) startup)"
proof -
  let ?C = "sample_codec (vv_new 5 fmempty ''alice'' ''n1'')"
  let ?d = "fmupd (InCwd [''data'', ''t'']) \<lparr>storage_db = Some ''A'', wal_log = None\<rparr> fmempty"
  have trim: "trim ''A'' = ''A''" and lines: "lines ''A'' = [] @ [''A'']" and utf8: "utf8_valid ''A''"
    by code_simp+
  have bad: "decrypt ?C (trim ''A'') = Inl Base64Error"
    unfolding trim by (simp add: decrypt_def sample_codec_def)
  have "load_tables ?C (iter_map sorted_order (data_entries ?d)) fmempty = ProcessExit"
  proof -
    have "iter_map sorted_order (data_entries ?d) = [(''t'', \<lparr>storage_db = Some ''A'', wal_log = None\<rparr>)]"
      by code_simp
    then show ?thesis
      using bad utf8 trim lines by (simp add: load_table_def Let_def)
  qed
  then have "load_all_tables ?C sorted_order ?d \<noteq> IoError"
    by (simp add: load_all_tables_def)
  then show ?thesis
    by (intro conjunct2 [OF torn_chunk_blocks_start [OF _ _ lines _ utf8 _ bad,
        where t = "''t''" and dir = "\<lparr>storage_db = Some ''A'', wal_log = None\<rparr>" and tbl = fmempty]]) (simp_all add: trim)
qed

end
