(* ===== verification/Folders.thy ===== *)
theory Folders
  imports Durability
begin

text \<open>
  Which tables have a folder of their own: \<^verbatim>\<open>persistance.rs\<close> joins the table name to the data
  directory as a path. The theory compares the tree of folders of \<^verbatim>\<open>Persistence\<close> with a disk
  that keeps every path apart, for plain table names, and shows what other names do.
\<close>

section \<open>A disk that keeps the paths apart\<close>

text \<open>The operations of a save when each path is a folder of its own.\<close>

fun apply_flat :: "disk_op \<Rightarrow> (string, table_dir) fmap \<Rightarrow> (string, table_dir) fmap" where
  "apply_flat (CreateDir p) d =
     (case fmlookup d p of None \<Rightarrow> fmupd p \<lparr>storage_db = None, wal_log = None\<rparr> d | Some _ \<Rightarrow> d)"
| "apply_flat (CreateStorage p) d =
     (case fmlookup d p of None \<Rightarrow> d | Some dir \<Rightarrow> fmupd p (dir\<lparr>storage_db := Some ''''\<rparr>) d)"
| "apply_flat (AppendStorage p text) d =
     (case fmlookup d p of
        None \<Rightarrow> d
      | Some dir \<Rightarrow> fmupd p (dir\<lparr>storage_db := map_option (\<lambda>old. old @ text) (storage_db dir)\<rparr>) d)"
| "apply_flat (CreateWal p) d =
     (case fmlookup d p of None \<Rightarrow> d | Some dir \<Rightarrow> fmupd p (dir\<lparr>wal_log := Some ''''\<rparr>) d)"

text \<open>The flat disk holds, under the paths of the plain names, what is directly in the data directory.\<close>

definition data_view :: "disk \<Rightarrow> (string, table_dir) fmap \<Rightarrow> bool" where
  "data_view D d \<longleftrightarrow>
     (\<forall>t. component t \<longrightarrow> fmlookup d (table_path t) = fmlookup D (InCwd [''data'', t])) \<and>
     (\<forall>p. p |\<in>| fmdom d \<longrightarrow> (\<exists>t. component t \<and> p = table_path t))"

section \<open>Lemmas\<close>

lemma plain_path_inject: "component t \<Longrightarrow> component u \<Longrightarrow> table_path t = table_path u \<longleftrightarrow> t = u"
  by (simp add: component_path)

lemma data_view_op:
  assumes "data_view D d" and "op_path x = table_path t" and "component t"
  shows "data_view (apply_op x D) (apply_flat x d)"
proof -
  have here: "fmlookup d (table_path t) = fmlookup D (InCwd [''data'', t])"
    using assms(1,3) by (simp add: data_view_def)
  have folder: "folder_at (table_path t) = InCwd [''data'', t]"
    using component_folder [OF assms(3)] by (simp add: table_folder_def)
  have dom: "\<exists>t. component t \<and> p = table_path t" if "p |\<in>| fmdom (apply_flat x d)" for p
    using that assms by (cases x) (auto simp: data_view_def split: option.splits)
  have "fmlookup (apply_flat x d) (table_path u) = fmlookup (apply_op x D) (InCwd [''data'', u])" if u: "component u" for u
  proof (cases "u = t")
    case True
    with assms(2) here show ?thesis
      by (cases x) (auto simp: folder create_dir_component [OF assms(3)] make_dir_lookup split: option.splits)
  next
    case False
    have "fmlookup (apply_flat x d) (table_path u) = fmlookup d (table_path u)"
      using False assms(2,3) u by (cases x) (auto simp: plain_path_inject split: option.splits)
    moreover have "fmlookup (apply_op x D) (InCwd [''data'', u]) = fmlookup D (InCwd [''data'', u])"
      using False by (intro apply_op_component [OF assms(2,3)]) (simp_all add: component_folder [OF assms(3)])
    ultimately show ?thesis
      using assms(1) u by (simp add: data_view_def)
  qed
  with dom show ?thesis
    by (auto simp: data_view_def)
qed

lemma save_tables_paths:
  assumes "save_tables C ord nonce tables = (ops, ok)" and "x \<in> set ops"
  shows "\<exists>t \<in> fst ` set tables. op_path x = table_path t"
  using assms
  by (induction tables arbitrary: ops ok) (force split: prod.splits if_splits dest: save_table_path)+

text \<open>After a completed round every folder of a table holds what the last table saved there left.\<close>

lemma save_tables_files:
  assumes "save_tables C ord nonce tables = (ops, True)" and "f \<in> (table_folder \<circ> fst) ` set tables"
  shows "\<exists>u tbl. (u, tbl) \<in> set tables \<and> table_folder u = f \<and>
    fmlookup (run_ops ops D) f = Some \<lparr>storage_db = Some (table_text C ord (nonce u) tbl), wal_log = Some ''''\<rparr>"
  using assms
proof (induction tables arbitrary: ops D)
  case (Cons x tables)
  obtain t tbl where x: "x = (t, tbl)"
    by fastforce
  from Cons.prems(1) x obtain ops1 ops2 where s: "save_table C ord (nonce t) t tbl = (ops1, True)"
    "save_tables C ord nonce tables = (ops2, True)" "ops = ops1 @ ops2"
    by (auto split: prod.splits if_splits)
  show ?case
  proof (cases "f \<in> (table_folder \<circ> fst) ` set tables")
    case True
    from Cons.IH [OF s(2) True, of "run_ops ops1 D"] show ?thesis
      unfolding s(3) run_ops_simps(3) by auto
  next
    case False
    with Cons.prems(2) x have f: "f = table_folder t"
      by simp
    have "\<forall>y \<in> set ops2. folder_at (op_path y) \<noteq> f"
      using save_tables_paths [OF s(2)] False by (force simp: table_folder_def)
    from run_ops_keep [OF save_table_files [OF s(1), of D, folded f] this] x f show ?thesis
      unfolding s(3) run_ops_simps(3) by auto
  qed
qed simp

section \<open>Properties of table folders\<close>

text \<open>
  C19: tables with plain names have folders of their own. While every table name is a single
  path component, saving acts on the data directory of the file tree exactly as on a disk that
  keeps every path apart, so no table's save touches another's files; and it changes nothing
  outside the data directory except creating it.
\<close>

theorem plain_tables_keep_apart:
  assumes "data_view D d" and "save_to_cold C ord nonce s = (ops, ok)"
    and "\<And>t. t |\<in>| fmdom s \<Longrightarrow> component t"
  shows "data_view (run_ops ops D) (fold apply_flat ops d) \<and>
    (\<forall>f. f \<noteq> InCwd [] \<and> f \<noteq> InCwd [''data''] \<and> (\<forall>t. f \<noteq> InCwd [''data'', t]) \<longrightarrow>
       fmlookup (run_ops ops D) f = fmlookup D f)"
proof -
  have comp: "\<forall>x \<in> set ops. \<exists>t. op_path x = table_path t \<and> component t"
    using save_tables_paths [OF assms(2) [unfolded save_to_cold_def]] assms(3)
    by (fastforce simp: mem_iter_map fmdomI)
  then have "data_view (run_ops ops D) (fold apply_flat ops d)"
    using assms(1)
  proof (induction ops arbitrary: D d)
    case (Cons x ops)
    then obtain t where "op_path x = table_path t" "component t"
      by auto
    from data_view_op [OF Cons.prems(2) this] Cons show ?case
      by simp
  qed simp
  moreover have "fmlookup (run_ops ops D) f = fmlookup D f"
    if "f \<noteq> InCwd []" "f \<noteq> InCwd [''data'']" "\<forall>t. f \<noteq> InCwd [''data'', t]" for f
    using comp that component_folder by (intro run_ops_component) metis+
  ultimately show ?thesis
    by blast
qed

text \<open>
  C38: a client chooses the folder. Any name the extractor decodes from the first path segment of an
  authenticated PUT becomes a table, and after the next completed save the folder the name resolves
  to holds the files of that table, or of another table of the store whose name leads to the same folder:
  \<open>../x\<close> is beside the data directory, \<open>/x\<close> at the root of the file system, and a name with a
  trailing slash shares the folder of the name without it.
\<close>

theorem client_chooses_folder:
  assumes "req_method req = PUT" and "path_segments (requote W (req_path req)) = Some [seg, ''key'', kseg]"
    and "seg \<noteq> []" and "kseg \<noteq> []"
    and "json_fields W (headers req) (content req) = Some val"
    and "extract_user_from_token E (headers req) = Inr user"
    and "store (state (fst (snd (serve W E S req sv)))) = s"
    and "save_to_cold C ord nonce s = (ops, True)"
    and "component x" and "first_match W"
  shows "unquote W seg |\<in>| fmdom s \<and>
    (\<exists>u tbl. table_folder u = table_folder (unquote W seg) \<and> fmlookup s u = Some tbl \<and>
      fmlookup (run_ops ops D) (table_folder (unquote W seg)) =
        Some \<lparr>storage_db = Some (table_text C ord (nonce u) tbl), wal_log = Some ''''\<rparr>) \<and>
    table_folder (''../'' @ x) = InCwd [x] \<and> table_folder (''/'' @ x) = InRoot [x] \<and>
    table_folder (x @ ''/'') = table_folder x"
proof -
  have "route_request (use_https E) (req_method req) (requote W (req_path req)) = Some (PutValue, [seg, kseg])"
    using assms(1-4) by (simp add: route_request_def http_routes_def https_routes_def)
  then have "s = store (fst (snd (put_value E (headers req) (unquote W seg, unquote W kseg) val (state sv))))"
    using assms(5,7) by (auto simp: serve_routed [OF assms(10)] dispatch_def Let_def path_two_def extracting_def)
  then have here: "unquote W seg |\<in>| fmdom s"
    using assms(6) by (auto simp: put_value_def Let_def fmdom_touch fmdom_insert split: option.splits)
  then obtain tbl where "(unquote W seg, tbl) \<in> set (iter_map ord s)"
    by (auto simp: fmlookup_dom_iff mem_iter_map)
  then have "table_folder (unquote W seg) \<in> (table_folder \<circ> fst) ` set (iter_map ord s)"
    by force
  from save_tables_files [OF assms(8) [unfolded save_to_cold_def] this, of D]
  have "\<exists>u tbl. table_folder u = table_folder (unquote W seg) \<and> fmlookup s u = Some tbl \<and>
      fmlookup (run_ops ops D) (table_folder (unquote W seg)) =
        Some \<lparr>storage_db = Some (table_text C ord (nonce u) tbl), wal_log = Some ''''\<rparr>"
    by (auto simp: mem_iter_map)
  with here odd_folders [OF assms(9)] show ?thesis
    by blast
qed

lemma sample_component: "component ''x''"
  by (simp add: component_def)

theorem plain_tables_keep_apart_witness:
  "data_view (run_ops (fst (save_to_cold (sample_codec (vv_new 5 fmempty ''alice'' ''n1'')) sorted_order
      (\<lambda>_ _. ''000000000000'') (fmupd ''x'' fmempty fmempty))) fmempty)
     (fold apply_flat (fst (save_to_cold (sample_codec (vv_new 5 fmempty ''alice'' ''n1'')) sorted_order
      (\<lambda>_ _. ''000000000000'') (fmupd ''x'' fmempty fmempty))) fmempty)"
proof -
  have "data_view fmempty fmempty"
    by (simp add: data_view_def)
  moreover have "component t" if "t |\<in>| fmdom (fmupd ''x'' fmempty fmempty)" for t
    using that sample_component by simp
  ultimately show ?thesis
    using plain_tables_keep_apart [OF _ prod.collapse [symmetric]] by blast
qed

theorem client_chooses_folder_witness:
  "let W = sample_web\<lparr>unquote := (\<lambda>s. if s = ''..%2Fx'' then ''../x'' else s),
             json_fields := (\<lambda>hs b. Some (fmupd ''f'' ''x'' fmempty))\<rparr>;
       sv = fst (snd (serve W (sample_env ''n1'' 9) sample_surroundings
         (sample_request PUT ''/..%2Fx/key/k'' (bearer ''Ualice'') []) (server_new (sample_node\<lparr>store := fmempty\<rparr>))))
   in \<exists>ops C. save_to_cold C sorted_order (\<lambda>_ _. ''000000000000'') (store (state sv)) = (ops, True) \<and>
        (\<exists>text. fmlookup (run_ops ops fmempty) (InCwd [''x'']) = Some \<lparr>storage_db = Some text, wal_log = Some ''''\<rparr>)"
proof -
  define W where "W = sample_web\<lparr>unquote := (\<lambda>s. if s = ''..%2Fx'' then ''../x'' else s),
    json_fields := (\<lambda>hs b. Some (fmupd ''f'' ''x'' fmempty))\<rparr>"
  let ?E = "sample_env ''n1'' 9" and ?req = "sample_request PUT ''/..%2Fx/key/k'' (bearer ''Ualice'') []"
  let ?sv = "fst (snd (serve W ?E sample_surroundings ?req (server_new (sample_node\<lparr>store := fmempty\<rparr>))))"
  define C :: "string codec" where "C = (sample_codec (vv_new 5 fmempty ''alice'' ''n1''))\<lparr>json_of := (\<lambda>_. Some ''{}'')\<rparr>"
  have saves: "\<exists>ops. save_to_cold C sorted_order (\<lambda>_ _. ''000000000000'') s = (ops, True)" for s
    using save_completes [of C s sorted_order "\<lambda>_ _. ''000000000000''"]
    by (cases "save_to_cold C sorted_order (\<lambda>_ _. ''000000000000'') s") (simp add: C_def sample_codec_def)
  obtain ops where save: "save_to_cold C sorted_order (\<lambda>_ _. ''000000000000'') (store (state ?sv)) = (ops, True)"
    by (rule exE [OF saves])
  have path: "path_segments (requote W (req_path ?req)) = Some [''..%2Fx'', ''key'', ''k'']"
    by (simp add: W_def sample_web_def sample_request_def path_segments_def split_slashes.simps)
  have user: "extract_user_from_token ?E (headers ?req) = Inr ''alice''"
    unfolding sample_request_def by code_simp
  have put: "req_method ?req = PUT" and fields: "json_fields W (headers ?req) (content ?req) = Some (fmupd ''f'' ''x'' fmempty)"
    and name: "unquote W ''..%2Fx'' = ''../'' @ ''x''"
    by (simp_all add: W_def sample_web_def sample_request_def)
  have routed: "first_match W"
    by (simp add: W_def first_match_def sample_web_def)
  from client_chooses_folder [OF put path list.distinct(2) list.distinct(2) fields user refl save sample_component routed,
      where D = fmempty, unfolded name]
  have "\<exists>text. fmlookup (run_ops ops fmempty) (InCwd [''x'']) = Some \<lparr>storage_db = Some text, wal_log = Some ''''\<rparr>"
    by auto
  with save show ?thesis
    unfolding Let_def W_def [symmetric] by blast
qed

end
