(* ===== verification/Accounts.thy ===== *)
theory Accounts
  imports Server
begin

text \<open>
  Accounts over time: what the requests a server answers leave of the record of an account
  (\<^verbatim>\<open>access\<close> of \<^verbatim>\<open>security/authentication.rs\<close>), and logging in afterwards.
\<close>

section \<open>Requests that leave a record alone\<close>

text \<open>The records a request addresses with PUT, PATCH or DELETE.\<close>

definition addressed :: "('v, 'f) web \<Rightarrow> ('v, 'c) env \<Rightarrow> raw_request \<Rightarrow> (string \<times> string) option" where
  "addressed W E req =
     (case router W (if use_https E then https_routes else http_routes) (req_method req)
        (requote W (req_path req)) of
        None \<Rightarrow> None
      | Some (e, caps) \<Rightarrow> if e \<in> {PutValue, PatchValue, DeleteValue} then path_two W caps else None)"

lemma unprivileged:
  assumes "\<not> privileged E hs"
  shows "provided_secret_of hs \<noteq> cluster_secret E" and "\<not> validate_admin_token E hs" and "\<not> internal_request E hs"
  using assms by (auto simp: privileged_def dest: internal_provided)

lemma unprivileged_keeps:
  assumes "\<not> privileged E hs" and "store_get t k (store nd) = Some v"
  shows "store_get t k (store (fst (snd (put_value_internal E hs path w nd)))) = Some v"
    and "store_get t k (store (fst (snd (access E hs user b nd)))) = Some v"
    and "fst (snd (admin_put_record E hs path val nd)) = nd"
    and "fst (snd (admin_delete_record E hs path nd)) = nd"
  using assms(2) unprivileged [OF assms(1)] access_store [of E hs t k user b nd]
    put_value_internal_store [OF triple_collapse, of t k E hs "fst path" "snd path" w nd]
  by (auto simp: admin_refused)

lemma writes_keep:
  assumes "store_get t k (store nd) = Some v" and "\<not> internal_request E hs"
    and "path = (t, k) \<Longrightarrow> extract_user_from_token E hs \<noteq> Inr (owner v)"
  shows "store_get t k (store (fst (snd (put_value E hs path val nd)))) = Some v"
    and "store_get t k (store (fst (snd (patch_value E hs path upd nd)))) = Some v"
    and "store_get t k (store (fst (snd (delete_value E hs path nd)))) = Some v"
  using assms put_value_store [OF triple_collapse, of t k E hs "fst path" "snd path" val nd]
    patch_value_store [OF triple_collapse, of t k E hs "fst path" "snd path" upd nd]
    delete_value_store [OF triple_collapse, of t k E hs "fst path" "snd path" nd]
  by (cases path; auto simp: put_cell_def patch_cell_def delete_cell_def split: sum.splits)+

lemma dispatch_keeps:
  assumes "\<not> privileged E (headers req)" and "store_get t k (store (state sv)) = Some v"
    and "e \<in> {PutValue, PatchValue, DeleteValue} \<Longrightarrow> path_two W caps = Some (t, k) \<Longrightarrow>
      extract_user_from_token E (headers req) \<noteq> Inr (owner v)"
  shows "store_get t k (store (fst (snd (dispatch W E S e caps req sv)))) = Some v"
proof (cases "e \<in> {PutValue, PatchValue, DeleteValue}")
  case True
  note kept = writes_keep [OF assms(2) unprivileged(3) [OF assms(1)]]
  from True assms(2,3) show ?thesis
    by (auto simp: dispatch_def Let_def extracting_state kept split: option.splits)
next
  case False
  with assms(2) unprivileged_keeps [OF assms(1,2)] show ?thesis
    by (cases e) (auto simp: dispatch_def Let_def extracting_state case_state get_value_pure case_prod_beta
      split: option.splits)
qed

lemma serve_keeps:
  assumes "\<not> privileged E (headers req)" and "store_get t k (store (state sv)) = Some v"
    and "addressed W E req = Some (t, k) \<Longrightarrow> extract_user_from_token E (headers req) \<noteq> Inr (owner v)"
  shows "store_get t k (store (state (fst (snd (serve W E S req sv))))) = Some v"
proof -
  have "state (fst (snd (serve W E S req sv))) = fst (snd (serve_inner W E S req sv))"
    by (simp add: serve_def split: prod.splits)
  with assms show ?thesis
    by (auto simp: serve_inner_def addressed_def split: option.splits prod.splits intro!: dispatch_keeps)
qed

lemma requests_keep:
  assumes "store_get t k (store (state sv)) = Some v"
    and "\<forall>(E, S, req) \<in> set rs. \<not> privileged E (headers req) \<and>
      (addressed W E req = Some (t, k) \<longrightarrow> extract_user_from_token E (headers req) \<noteq> Inr (owner v))"
  shows "store_get t k (store (state (serve_requests W rs sv))) = Some v"
  using assms
proof (induction W rs sv rule: serve_requests.induct)
  case (2 W E S req rs sv)
  have "store_get t k (store (state (fst (snd (serve W E S req sv))))) = Some v"
    using 2(2,3) by (intro serve_keeps) auto
  with 2 show ?case
    by simp
qed simp

section \<open>Properties of accounts\<close>

text \<open>
  C28: registering and logging in. The first access with a name creates the account: the record of the
  name in the table of accounts, owned by that name, with the hash of the password. It answers 201 with a token (500
  if no token can be made). From then on, on that node, through any sequence of served requests of
  which none carries the cluster secret or an administrator token and none is a PUT, PATCH
  or DELETE of the account's own record with a token of its user: the account stays as it is, and an access
  with a password of the same hash is accepted (200 and a token, or 500), every other one is
  refused with 401, and neither login changes any record.
\<close>

theorem register_then_login:
  assumes "\<not> internal_request E req" and "\<not> internal_request E' req'"
    and "json_strings E" and "json_strings E'" and "json_str E' = json_str E" and "sha256_hex E' = sha256_hex E"
    and "store_get ''auth'' u (store (state sv)) = None"
    and "access E req u \<lparr>bincode_secret = x, json_secret = Some s\<rparr> (state sv) = (r, nd1, out)"
    and "\<forall>(E\<^sub>r, S, rq) \<in> set rs. \<not> privileged E\<^sub>r (headers rq) \<and>
      (addressed W E\<^sub>r rq = Some (''auth'', u) \<longrightarrow> extract_user_from_token E\<^sub>r (headers rq) \<noteq> Inr u)"
    and "serve_requests W rs (sv\<lparr>state := nd1\<rparr>) = sv'"
    and "access E' req' u \<lparr>bincode_secret = y, json_secret = Some s'\<rparr> (state sv') = (r', nd2, out')"
  shows "(case jwt_encode E (jwt_secret E) \<lparr>sub = u, exp = token_expiry E, admin = None\<rparr> of
      None \<Rightarrow> r = respond 500 (ErrorJson ''Token creation failed'')
    | Some token \<Rightarrow> r = respond 201 (TokenJson token (Some ''User created''))) \<and>
    store_get ''auth'' u (store nd1) = Some (vv_new (now E) (secret_map E (sha256_hex E s)) u (current_addr E)) \<and>
    store_get ''auth'' u (store (state sv')) = store_get ''auth'' u (store nd1) \<and>
    r' = (if sha256_hex E s' \<noteq> sha256_hex E s then respond 401 (ErrorJson ''Invalid credentials'')
          else case jwt_encode E' (jwt_secret E') \<lparr>sub = u, exp = token_expiry E', admin = None\<rparr> of
            None \<Rightarrow> respond 500 (ErrorJson ''Token creation failed'')
          | Some token \<Rightarrow> respond 200 (TokenJson token None)) \<and>
    out' = [] \<and> store_get t k (store nd2) = store_get t k (store (state sv'))"
proof -
  let ?v = "vv_new (now E) (secret_map E (sha256_hex E s)) u (current_addr E)"
  from access_new [OF assms(1) _ assms(3,7), of "\<lparr>bincode_secret = x, json_secret = Some s\<rparr>" s] assms(8)
  have r: "r = issue_token E u True"
    and nd1: "nd1 = commit_write E ''auth'' u ?v ((state sv)\<lparr>store := touch_table ''auth'' (store (state sv))\<rparr>)"
    by (auto simp: Let_def)
  have created: "store_get ''auth'' u (store nd1) = Some ?v"
    by (simp add: nd1 store_simps)
  moreover have "owner ?v = u"
    by (simp add: vv_new_def)
  ultimately have kept: "store_get ''auth'' u (store (state sv')) = Some ?v"
    using requests_keep [of "''auth''" u "sv\<lparr>state := nd1\<rparr>" ?v rs W] assms(9,10) by simp
  have "stored_secret E' ?v = Some (sha256_hex E s)"
    using assms(3-5) by (simp add: json_strings_def)
  with access_existing [OF assms(2) _ kept, of "\<lparr>bincode_secret = y, json_secret = Some s'\<rparr>" s'] assms(6,11)
  show ?thesis
    using r created kept by (auto simp: store_simps issue_token_def split: option.splits)
qed

theorem register_then_login_witness:
  "let E = sample_env ''n1'' 9;
       nd1 = fst (snd (access E fmempty ''bob'' \<lparr>bincode_secret = None, json_secret = Some ''pw''\<rparr> sample_node));
       sv' = serve_requests sample_web
         [(sample_env ''n1'' 10, sample_surroundings, sample_request DELETE ''/auth/key/bob'' (bearer ''Ualice'') [])] (server_new nd1)
   in fst (access (sample_env ''n1'' 11) fmempty ''bob'' \<lparr>bincode_secret = None, json_secret = Some ''no''\<rparr> (state sv')) =
        respond 401 (ErrorJson ''Invalid credentials'') \<and>
      fst (access (sample_env ''n1'' 11) fmempty ''bob'' \<lparr>bincode_secret = None, json_secret = Some ''pw''\<rparr> (state sv')) =
        respond 200 (TokenJson ''Ubob'' None)"
proof -
  let ?E = "sample_env ''n1'' 9" and ?E' = "sample_env ''n1'' 11"
  let ?rs = "[(sample_env ''n1'' 10, sample_surroundings, sample_request DELETE ''/auth/key/bob'' (bearer ''Ualice'') [])]"
  let ?run = "access ?E fmempty ''bob'' \<lparr>bincode_secret = None, json_secret = Some ''pw''\<rparr> sample_node"
  define nd1 where "nd1 = fst (snd ?run)"
  define sv' where "sv' = serve_requests sample_web ?rs (server_new nd1)"
  have none: "store_get ''auth'' ''bob'' (store (state (server_new sample_node))) = None"
    and strangers: "\<not> privileged (sample_env ''n1'' 10) (bearer ''Ualice'')"
      "extract_user_from_token (sample_env ''n1'' 10) (bearer ''Ualice'') = Inr ''alice''"
    and token: "jwt_encode ?E' (jwt_secret ?E') \<lparr>sub = ''bob'', exp = token_expiry ?E', admin = None\<rparr> = Some ''Ubob''"
    by code_simp+
  have env: "json_str ?E' = json_str ?E" "sha256_hex ?E' = sha256_hex ?E"
    "sha256_hex ?E ''no'' \<noteq> sha256_hex ?E ''pw''"
    by (simp_all add: sample_env_def)
  have run: "access ?E fmempty ''bob'' \<lparr>bincode_secret = None, json_secret = Some ''pw''\<rparr> (state (server_new sample_node)) =
      (fst ?run, nd1, snd (snd ?run))"
    by (simp add: server_new_def nd1_def)
  have foreign: "\<forall>(E\<^sub>r, S, rq) \<in> set ?rs. \<not> privileged E\<^sub>r (headers rq) \<and>
      (addressed sample_web E\<^sub>r rq = Some (''auth'', ''bob'') \<longrightarrow> extract_user_from_token E\<^sub>r (headers rq) \<noteq> Inr ''bob'')"
    using strangers by (simp add: sample_request_def)
  have requests: "serve_requests sample_web ?rs ((server_new sample_node)\<lparr>state := nd1\<rparr>) = sv'"
    by (simp only: sv'_def server_new_def server.simps)
  note login = register_then_login [OF plain_request plain_request sample_json_strings sample_json_strings env(1,2) none run
      foreign requests triple_collapse]
  have "fst (access ?E' fmempty ''bob'' \<lparr>bincode_secret = None, json_secret = Some ''no''\<rparr> (state sv')) =
      respond 401 (ErrorJson ''Invalid credentials'')"
    using login [of None "''no''"] env(3) by presburger
  moreover have "fst (access ?E' fmempty ''bob'' \<lparr>bincode_secret = None, json_secret = Some ''pw''\<rparr> (state sv')) =
      respond 200 (TokenJson ''Ubob'' None)"
    using login [of None "''pw''"] unfolding token option.case by presburger
  ultimately show ?thesis
    unfolding Let_def nd1_def [symmetric] sv'_def [symmetric] by blast
qed

end
