(* ===== verification/Spec2Isabelle.thy ===== *)
theory Spec2Isabelle
  imports Replication Snapshots Fetching Probing Folders Accounts
begin

text \<open>
  DynaRust: a distributed key-value store, verified.

  \<^bold>\<open>The program.\<close> A DynaRust process keeps tables of records in memory, serves them over HTTP,
  replicates every write to all active nodes of its cluster, saves them encrypted to disk, and
  finds out by probing and gossip which nodes are alive. A record (\<^verbatim>\<open>VersionedValue\<close>) carries a
  JSON object, an owner, a wall-clock timestamp and a vector clock. The theories follow the parts
  of the program; paths are relative to the source directory \<^verbatim>\<open>src/\<close>.

  \<^item> \<^verbatim>\<open>Prelude\<close>: 64- and 128-bit words, string functions of the standard library,
    \<^verbatim>\<open>Ordering\<close> and \<^verbatim>\<open>max_by\<close>, iteration of hash maps in an arbitrary order. A value of type
    \<open>hash_order\<close> is an arbitrary permutation; theorems quantify over it, so they hold for
    every iteration order and every shuffle.
  \<^item> \<^verbatim>\<open>Versioned\<close> (\<^verbatim>\<open>storage/engine.rs\<close>, \<^verbatim>\<open>VersionedValue\<close>): creating, updating and patching a
    record, the dominance test as the two loops of the code, and the rule that decides whether an
    incoming version replaces a stored one (\<open>supersedes\<close>, \<open>merge_cell\<close>). Dominance is the strict
    pointwise order of the clocks; the locale \<open>lww_register\<close> states what a last-writer-wins
    register promises and is interpreted on these definitions.
  \<^item> \<^verbatim>\<open>Ring\<close> (\<^verbatim>\<open>get_active_nodes\<close>, \<^verbatim>\<open>get_replication_nodes\<close>): the consistent-hash ring as a sorted
    association list, and the walk that picks replication targets.
  \<^item> \<^verbatim>\<open>Subscription\<close> (\<^verbatim>\<open>storage/subscription.rs\<close>): the channel table, \<^verbatim>\<open>subscribe\<close>, \<^verbatim>\<open>notify\<close> with
    its two critical sections, and the event stream. The channels of tokio are a record of
    operations; the locale \<open>broadcast_channel\<close> states their documented behaviour.
  \<^item> \<^verbatim>\<open>Http\<close>: requests, responses, messages to other nodes, the state of a process (record
    \<open>node\<close>), the process environment (record \<open>env\<close>) and the token checks.
  \<^item> \<^verbatim>\<open>Engine\<close> (the handlers of \<^verbatim>\<open>storage/engine.rs\<close>): GET with its fan-out, choice of the latest
    version and read repair; PUT, PATCH, DELETE (\<open>delete_check\<close>, \<open>delete_removal\<close> and their composition), the
    internal write, table queries, \<^verbatim>\<open>/store\<close>, and \<^verbatim>\<open>/join\<close>. The locale \<open>record_store\<close> is the interface of the two-level map, interpreted on it;
    \<open>put_cell\<close>, \<open>patch_cell\<close> and \<open>delete_cell\<close> are the abstract specification of one record.
  \<^item> \<^verbatim>\<open>Reading\<close>: what a GET returns, what it may disclose, and what read repair achieves.
  \<^item> \<^verbatim>\<open>Convergence\<close>: sequences of replicated and of client writes, when replicas agree, and the runs
    in which they do not.
  \<^item> \<^verbatim>\<open>Delivery\<close>: the retry loop of the replication tasks and the semaphore that bounds them.
  \<^item> \<^verbatim>\<open>Membership\<close> (\<^verbatim>\<open>network/broadcaster.rs\<close>): addresses, the failure detector, gossip, the membership
    endpoints, and a step relation for their interleavings in a cluster in which every node reads its own
    clock.
  \<^item> \<^verbatim>\<open>Auth\<close> (\<^verbatim>\<open>security/authentication.rs\<close>) and \<^verbatim>\<open>Admin\<close> (\<^verbatim>\<open>storage/admin.rs\<close>): accounts, tokens and the
    administration interface. \<^verbatim>\<open>Accounts\<close>: what the requests a server answers leave of an
    account, and logging in afterwards.
  \<^item> \<^verbatim>\<open>Paths\<close> (the path join of \<^verbatim>\<open>storage/persistance.rs\<close>): the path of a table's folder and the
    folder a path leads to; a name that is a single path component leads to the folder of that name in
    the data directory.
  \<^item> \<^verbatim>\<open>Persistence\<close> (\<^verbatim>\<open>storage/persistance.rs\<close>), \<^verbatim>\<open>Snapshots\<close> (\<^verbatim>\<open>storage/snapshoting.rs\<close>) and
    \<^verbatim>\<open>Startup\<close> (\<^verbatim>\<open>main.rs\<close>): the encrypted text format, saving as a sequence of file operations
    on the tree of folders, loading the folders of the data directory, cleaning of snapshots, and joining a cluster.
  \<^item> \<^verbatim>\<open>Statistics\<close> (\<^verbatim>\<open>storage/statistics.rs\<close>): request counters and the statistics report.
  \<^item> \<^verbatim>\<open>Routes\<close> and \<^verbatim>\<open>Server\<close> (\<^verbatim>\<open>main.rs\<close>): the two route tables, and one request from the socket to the
    reply: routing, extraction of the arguments, the handler, the metrics middleware. The relation
    \<open>handled\<close> lists the ways a request changes the state; the properties of whole runs rest on it.
  \<^item> \<^verbatim>\<open>Lifetime\<close>: a process from its start through requests, probes and lost subscribers, and the
    well-formedness of its state; what a restarted node believes about itself.
  \<^item> \<^verbatim>\<open>Wire\<close>: the messages of the background tasks as HTTP requests, the listener, and the proof that a
    message arrives as the call the other theories reason about.
  \<^item> \<^verbatim>\<open>Fetching\<close> and \<^verbatim>\<open>Probing\<close>: the requests of the read fan-out and of the failure detector,
    served by the other nodes: a write at one node is read at another, and a probe succeeds exactly if
    the target is reached directly or through a helper.
  \<^item> \<^verbatim>\<open>Replication\<close>: a cluster with messages in flight, as a step relation: writes, reads with read
    repair, the answers nodes give each other's reads, deliveries in any order and number.
  \<^item> \<^verbatim>\<open>Durability\<close>: a process with its disk, as a step relation: requests, saves table by table, saves that
    are cut off, crashes, restarts.
  \<^item> \<^verbatim>\<open>Folders\<close> (\<^verbatim>\<open>storage/persistance.rs\<close>): for which table names the tables have folders of
    their own, and where a client can make the server write.

  \<^bold>\<open>How the code is modelled.\<close> A handler is a function of the environment, the request and the
  state of the node; it returns the response, the new state, and the messages its background
  tasks send. Each guard and early return of the code is a branch. Two handlers of one process
  interleave at lock granularity; PUT, PATCH, the internal write and the registration hold the lock of the
  record they change from the check to the update and are one step. DELETE does not: it checks the
  owner in one critical section and removes the record in another. These are \<open>delete_check\<close> and
  \<open>delete_removal\<close>; \<open>delete_value\<close> is the handler when nothing comes between them, which the properties of
  runs of served requests assume, and \<^verbatim>\<open>Engine\<close> shows what can happen otherwise. The runs of
  \<^verbatim>\<open>Lifetime\<close> and \<^verbatim>\<open>Durability\<close> contain removals at any moment. Reading from
  other replicas is a function from node names to answers, errors included, so a GET is
  modelled for every combination of them. Wall-clock time is a field of the environment, different in
  every step; vector-clock counters and timestamps keep their widths and wrap.

  \<^bold>\<open>Parameters.\<close> What is not code of the repository is a field of \<open>env\<close> or \<open>codec\<close>: the clock,
  \<^verbatim>\<open>DefaultHasher\<close>, SHA-256, JSON web tokens, JSON text, AES-GCM, base64, bincode and tokio's channels; actix-web's routing,
  decoding and extraction are the record \<open>web\<close>, reqwest's parsing and encoding the record \<open>client\<close>. A
  theorem that relies on their behaviour says so in its hypotheses (\<open>jwt_sound\<close>, \<open>json_strings\<close>,
  \<open>codec_sound\<close>, \<open>collision_free\<close>, \<open>broadcast_channel\<close>, \<open>first_match\<close>, \<open>plain_paths\<close>, \<open>plain_urls\<close>,
  \<open>readable\<close>, \<open>reads_optional\<close>, \<open>reads_ping\<close>), each satisfied by the concrete instance its
  witness uses. A header name is the literal the code writes; header values either read as text or not.

  \<^bold>\<open>What the theorems show.\<close> Client operations act on the addressed record only, by its owner only,
  and refine the abstract register operations. Dominance is a strict partial order, writes
  dominate what they were based on, and the merge of replication and of joining is the same register
  merge, so replicas that saw the same versions agree whenever timestamps and clocks agree, in
  particular for keys with one coordinating node. Reads return the version all reachable replicas would
  converge to, disclose it to its owner only, and repair missing and older replicas. Replication
  targets are the active nodes, independent of iteration order, and removing a node moves no key
  between the others. The failure detector's verdicts are exact and, in every interleaving, justified by silence on
  some node's clock or by a clock that lags behind. Gossip is monotone, bounded and order-independent. A completed
  save of tables with plain names loads back exactly. Accounts and tokens work across nodes. Of whole processes and clusters: no sequence of
  requests without the owner's token, the cluster secret or an administrator token touches an existing record; in a
  cluster of fixed membership without deletes, every stored version was accepted from a client, and once every message
  has arrived all nodes agree on every key, if timestamps agree with clocks; every moment of a process is well-formed;
  tables with plain names whose save was completed survive crashes and restarts. The same development shows
  where the program falls short: ties and resolved conflicts that never converge, deletes undone by late
  messages, a DELETE that removes another user's record, a save that is not atomic and a torn file that blocks every start, table names that lead out of the
  data directory, keys that are not replicated, an https mode without inter-node traffic, clock skew that
  kills suspects, joins and administrator writes refused on the default secret.

  \<^bold>\<open>Bounds.\<close> No definition uses fuel: every loop of the code that ends is a structurally recursive
  function or has a termination proof, and the endless background loops are functions of the list of
  rounds they ran.

  \<^bold>\<open>Not modelled.\<close> The TLS handshake and the parsing of HTTP inside the libraries, logging, the static
  administration page, the floating-point average of the statistics, symbolic links and paths that run through files in the data directory, and the
  scripts and benchmarks. Deletes are left out of the cluster model of \<^verbatim>\<open>Replication\<close>, because they are no
  operation of a register; what they do is in \<^verbatim>\<open>Engine\<close> and \<^verbatim>\<open>Convergence\<close>.
\<close>

section \<open>Properties that span components\<close>

lemma put_value_channels:
  "put_value E req (t, k) val nd = (resp, nd', out) \<Longrightarrow> written_version resp = [v] \<Longrightarrow>
   channels nd' = notify (bc E) t k (Updated v) (channels nd)"
  by (auto simp: put_value_def written_version_def Let_def extract_user_from_token_def
      split: sum.splits option.splits if_splits)

lemma patch_value_channels:
  "patch_value E req (t, k) upd nd = (resp, nd', out) \<Longrightarrow> written_version resp = [v] \<Longrightarrow>
   channels nd' = notify (bc E) t k (Updated v) (channels nd)"
  by (auto simp: patch_value_def written_version_def Let_def extract_user_from_token_def
      split: sum.splits option.splits if_splits)

lemma serve_write_channels:
  assumes "serve_write E req (t, k) w nd = (resp, nd', out)" and "written_version resp = [v]"
  shows "channels nd' = notify (bc E) t k (Updated v) (channels nd)"
  using assms by (cases w) (simp_all add: put_value_channels patch_value_channels)

text \<open>
  C34: subscribers see writes. A client that subscribed to a key receives the full record of the
  next accepted PUT or PATCH of that key as its first event, over any channel that behaves as the
  broadcast channels of tokio are documented to behave.
\<close>

theorem write_reaches_subscriber:
  assumes "broadcast_channel (bc E) receivers pending"
    and "subscribe (bc E) t k (channels nd) = (rx, chans)"
    and "serve_write E req (t, k) w (nd\<lparr>channels := chans\<rparr>) = (resp, nd', out)"
    and "written_version resp = [v]"
  shows "\<exists>c. fmlookup (channels nd') (channel_id t k) = Some c \<and> rx \<in> receivers c \<and> pending c rx = [Updated v]"
  using broadcast_channel.subscribed_receives [OF assms(1,2), of "Updated v"] serve_write_channels [OF assms(3,4)]
  by simp

theorem write_reaches_subscriber_witness:
  "\<exists>c. fmlookup (channels (fst (snd (put_value (sample_env ''n1'' 9) (bearer ''Ualice'') (''t'', ''z'') fmempty
       (sample_node\<lparr>channels := snd (subscribe qc_ops ''t'' ''z'' fmempty)\<rparr>)))))
     (channel_id ''t'' ''z'') = Some c \<and>
     qc_pending c (fst (subscribe qc_ops ''t'' ''z'' (fmempty :: string queue_channel channel_map))) =
       [Updated (vv_new 9 fmempty ''alice'' ''n1'')]"
proof -
  define E where "E = sample_env ''n1'' 9"
  obtain rx chans where sub: "subscribe qc_ops ''t'' ''z'' (fmempty :: string queue_channel channel_map) = (rx, chans)"
    by fastforce
  let ?nd = "sample_node\<lparr>channels := chans\<rparr>"
  obtain resp nd' out where put: "put_value E (bearer ''Ualice'') (''t'', ''z'') fmempty ?nd = (resp, nd', out)"
    by (metis prod_cases3)
  have user: "extract_user_from_token E (bearer ''Ualice'') = Inr ''alice''"
    and new: "store_get ''t'' ''z'' (store sample_node) = None"
    unfolding E_def by code_simp+
  have env: "bc E = qc_ops" "channels sample_node = fmempty" "now E = 9" "current_addr E = ''n1''"
    by (simp_all add: E_def sample_env_def sample_node_def)
  have v: "written_version resp = [vv_new 9 fmempty ''alice'' ''n1'']"
    using put by (auto simp: put_value_def user new env store_simps written_version_def Let_def)
  have chan: "broadcast_channel (bc E) qc_receivers qc_pending"
    unfolding env by (rule qc.broadcast_channel_axioms)
  have "subscribe (bc E) ''t'' ''z'' (channels sample_node) = (rx, chans)"
    unfolding env by (rule sub)
  moreover have "serve_write E (bearer ''Ualice'') (''t'', ''z'') (Put fmempty) ?nd = (resp, nd', out)"
    using put by simp
  ultimately have "\<exists>c. fmlookup (channels nd') (channel_id ''t'' ''z'') = Some c \<and> rx \<in> qc_receivers c \<and>
      qc_pending c rx = [Updated (vv_new 9 fmempty ''alice'' ''n1'')]"
    by (rule write_reaches_subscriber [OF chan _ _ v])
  then show ?thesis
    unfolding E_def [symmetric] sub by (auto simp: put)
qed

text \<open>
  Notifications stay with their key. If neither table name contains a slash, an event for
  one key leaves the channel of every other key as it was.
\<close>

theorem notifications_isolated:
  assumes "CHR ''/'' \<notin> set t" and "CHR ''/'' \<notin> set t'" and "(t', k') \<noteq> (t, k)"
  shows "fmlookup (channels (notify_node E t k e nd)) (channel_id t' k') = fmlookup (channels nd) (channel_id t' k')"
proof -
  have "channel_id t k \<noteq> channel_id t' k'"
    using channel_id_inject [OF assms(1,2), of k k'] assms(3) by blast
  then show ?thesis
    by (simp add: notify_other_channel)
qed

theorem notifications_isolated_witness:
  "fmlookup (channels (notify_node (sample_env ''n1'' 9) ''t'' ''k'' Deleted
      (sample_node\<lparr>channels := snd (subscribe qc_ops ''t'' ''z'' fmempty)\<rparr>))) (channel_id ''t'' ''z'') =
   fmlookup (snd (subscribe qc_ops ''t'' ''z'' fmempty)) (channel_id ''t'' ''z'')"
  using notifications_isolated [of "''t''" "''t''" "''z''" "''k''" "sample_env ''n1'' 9" Deleted
      "sample_node\<lparr>channels := snd (subscribe qc_ops ''t'' ''z'' fmempty)\<rparr>"]
  by simp

end
